theory Spec2Isabelle
  imports Complex_Main "HOL-Library.Multiset"
begin

section \<open>Instants and calendar dates\<close>

text \<open>
  An instant is a number of milliseconds of local wall-clock time, counted from the
  midnight that opens day 0. The source holds instants as JavaScript \<open>Date\<close> values and
  only reads and writes their local fields (\<open>setHours\<close>, \<open>setDate\<close>, \<open>getTime\<close>), so a
  local day is a block of \<open>msPerDay\<close> consecutive instants (daylight-saving shifts are
  outside the model).
\<close>

type_synonym instant = int

text \<open>
  A calendar-date string names one local day. The model identifies the string with the
  number of that day: the conversion is one-to-one on days, which is all the source uses
  (\<open>===\<close> and \<open>includes\<close>).
\<close>

type_synonym dateString = int

definition msPerHour :: int where
  "msPerHour = 3600000"

definition msPerDay :: int where
  "msPerDay = 86400000"

text \<open>
  Modelled from the spec: \<open>getCalendarDateString\<close> is imported from \<open>../services\<close>, which
  is not among the sources. The spec has it compute the date-only calendar string of an
  instant, in the same local convention as everything else.
\<close>

definition getCalendarDateString :: "instant \<Rightarrow> dateString" where
  "getCalendarDateString t = t div msPerDay"

text \<open>\<open>d.setHours(0, 0, 0, 0)\<close>: the first instant of the day of \<open>d\<close>.\<close>

definition setHours_0_0_0_0 :: "instant \<Rightarrow> instant" where
  "setHours_0_0_0_0 t = (t div msPerDay) * msPerDay"

text \<open>\<open>d.setHours(23, 59, 59, 999)\<close>: the last millisecond of the day of \<open>d\<close>.\<close>

definition setHours_23_59_59_999 :: "instant \<Rightarrow> instant" where
  "setHours_23_59_59_999 t = (t div msPerDay) * msPerDay + (msPerDay - 1)"

text \<open>\<open>d.setDate(d.getDate() + 1)\<close>: the same time of day, one day later.\<close>

definition setDate_next :: "instant \<Rightarrow> instant" where
  "setDate_next t = t + msPerDay"

section \<open>Segmenter\<close>

datatype DayType = StartDay | MiddleDay | EndDay

text \<open>
  An event as the segmenter receives it: \<open>start\<close> and \<open>end\<close> may be absent (\<open>None\<close>), which
  is what the test \<open>!event.start || !event.end\<close> looks for. \<open>title\<close> stands for the
  passthrough fields that the source copies with \<open>...event\<close>.
\<close>

record Event =
  ev_start :: "instant option"
  ev_end :: "instant option"
  allDay :: bool
  title :: string

record EventSegment = Event +
  segmentDate :: dateString
  isEventSegment :: bool
  originalEvent :: "Event option"
  dayType :: "DayType option"

text \<open>The object pushed for a single-day event: the event's own fields and two tags.\<close>

definition singleDaySegment :: "Event \<Rightarrow> dateString \<Rightarrow> EventSegment" where
  "singleDaySegment event startDateString =
     \<lparr>ev_start = ev_start event, ev_end = ev_end event, allDay = allDay event,
      title = title event,
      segmentDate = startDateString, isEventSegment = False,
      originalEvent = None, dayType = None\<rparr>"

text \<open>
  The object pushed inside the loop, for the day that opens at \<open>currentDate\<close>. \<open>start\<close> and
  \<open>end\<close> are the event's own instants, already known to be present.
\<close>

definition daySegment ::
  "Event \<Rightarrow> instant \<Rightarrow> instant \<Rightarrow> dateString \<Rightarrow> instant \<Rightarrow> nat \<Rightarrow> EventSegment" where
  "daySegment event start end' endDateString currentDate dayCount =
     (let dateString = getCalendarDateString currentDate;
          (segmentStart, segmentEnd) =
            (if dayCount = 0 then (start, setHours_23_59_59_999 currentDate)
             else if getCalendarDateString currentDate = endDateString
               then (setHours_0_0_0_0 currentDate, end')
             else (setHours_0_0_0_0 currentDate, setHours_23_59_59_999 currentDate))
      in \<lparr>ev_start = Some segmentStart, ev_end = Some segmentEnd, allDay = allDay event,
          title = title event,
          segmentDate = dateString, isEventSegment = True,
          originalEvent = Some event,
          dayType = Some (if dayCount = 0 then StartDay
                          else if getCalendarDateString currentDate = endDateString
                            then EndDay else MiddleDay)\<rparr>)"

text \<open>
  The loop \<open>while (currentDate <= endDateOnly)\<close>. It carries the list \<open>segments\<close> it pushes
  to, the moving \<open>currentDate\<close> and \<open>dayCount\<close>, and returns the list after the last turn.
\<close>

function segmentLoop ::
  "Event \<Rightarrow> instant \<Rightarrow> instant \<Rightarrow> dateString list \<Rightarrow> dateString \<Rightarrow> instant \<Rightarrow>
   EventSegment list \<Rightarrow> instant \<Rightarrow> nat \<Rightarrow> EventSegment list" where
  "segmentLoop event start end' pageDates endDateString endDateOnly segments currentDate dayCount =
     (if currentDate \<le> endDateOnly then
        segmentLoop event start end' pageDates endDateString endDateOnly
          (if getCalendarDateString currentDate \<in> set pageDates
           then segments @ [daySegment event start end' endDateString currentDate dayCount]
           else segments)
          (setDate_next currentDate) (Suc dayCount)
      else segments)"
  by pat_completeness auto
termination
  by (relation "measure (\<lambda>(event, start, end', pageDates, endDateString, endDateOnly,
        segments, currentDate, dayCount). nat (endDateOnly + 1 - currentDate))")
     (auto simp: setDate_next_def msPerDay_def)

declare segmentLoop.simps [simp del]

text \<open>The body of \<open>events.forEach\<close>: what one event adds to \<open>segments\<close>.\<close>

definition segmentEvent :: "dateString list \<Rightarrow> Event \<Rightarrow> EventSegment list \<Rightarrow> EventSegment list" where
  "segmentEvent pageDates event segments =
     (case (ev_start event, ev_end event) of
        (Some start, Some end') \<Rightarrow>
          (let startDateString = getCalendarDateString start;
               endDateString = getCalendarDateString end'
           in if startDateString = endDateString then
                (if startDateString \<in> set pageDates
                 then segments @ [singleDaySegment event startDateString]
                 else segments)
              else segmentLoop event start end' pageDates endDateString
                     (setHours_0_0_0_0 end') segments (setHours_0_0_0_0 start) 0)
      | _ \<Rightarrow> segments)"

definition createEventSegments :: "Event list \<Rightarrow> dateString list \<Rightarrow> EventSegment list" where
  "createEventSegments events pageDates = fold (segmentEvent pageDates) events []"

text \<open>
  The result of the loop in closed form, for the proofs: the loop's own segment for each
  date of the span that is a page date, in date order.
\<close>

definition multiDaySegments ::
  "dateString list \<Rightarrow> Event \<Rightarrow> instant \<Rightarrow> instant \<Rightarrow> EventSegment list" where
  "multiDaySegments pageDates event start end' =
     map (\<lambda>d. daySegment event start end' (getCalendarDateString end') (d * msPerDay)
                 (nat (d - getCalendarDateString start)))
         (filter (\<lambda>d. d \<in> set pageDates)
                 [getCalendarDateString start..getCalendarDateString end'])"

section \<open>Column packer\<close>

subsection \<open>Numbers and comparisons\<close>

text \<open>
  Pixel quantities are JavaScript numbers; the model computes them in the reals, so
  rounding is outside it.

  The packer never converts \<open>start\<close> and \<open>end\<close> before it compares them: it applies \<open><\<close>,
  \<open>>\<close>, \<open><=\<close> and \<open>>=\<close> to the values as they come. The timeline hands it the segments of
  \<open>createEventSegments\<close>, in which a piece of a multi-day event carries \<open>Date\<close> objects and a
  single-day event keeps the values of the caller, date-time strings. So a time value is
  a \<open>Date\<close> object or a string; both name an instant (\<open>new Date(v)\<close> and \<open>new XDate(v)\<close> read
  it). The strings are taken to be in one fixed-width format such as
  \<open>2017-09-06 22:30:00\<close>, in which the order of the strings is the order of the instants.
\<close>

datatype timeValue = DateObject instant | DateString instant

fun instantOf :: "timeValue \<Rightarrow> instant" where
  "instantOf (DateObject t) = t"
| "instantOf (DateString t) = t"

fun isDateObject :: "timeValue \<Rightarrow> bool" where
  "isDateObject (DateObject t) = True"
| "isDateObject (DateString t) = False"

text \<open>
  \<open>a < b\<close> and \<open>a <= b\<close> on time values that may be absent (\<open>a > b\<close> is \<open>b < a\<close>, \<open>a >= b\<close> is
  \<open>b <= a\<close>). Two \<open>Date\<close> objects compare by their time, two strings as strings. A \<open>Date\<close>
  object against a string compares the time with the number the string converts to,
  which is \<open>NaN\<close>, and an absent operand is \<open>NaN\<close> too: the comparison is false.
\<close>

fun js_lt :: "timeValue option \<Rightarrow> timeValue option \<Rightarrow> bool" where
  "js_lt (Some (DateObject x)) (Some (DateObject y)) = (x < y)"
| "js_lt (Some (DateString x)) (Some (DateString y)) = (x < y)"
| "js_lt a b = False"

fun js_le :: "timeValue option \<Rightarrow> timeValue option \<Rightarrow> bool" where
  "js_le (Some (DateObject x)) (Some (DateObject y)) = (x \<le> y)"
| "js_le (Some (DateString x)) (Some (DateString y)) = (x \<le> y)"
| "js_le a b = False"

text \<open>
  \<open><\<close> and \<open><=\<close> on numbers, for the durations; \<open>None\<close> is \<open>NaN\<close>, with which every
  comparison is false.
\<close>

definition num_lt :: "int option \<Rightarrow> int option \<Rightarrow> bool" where
  "num_lt a b = (case (a, b) of (Some x, Some y) \<Rightarrow> x < y | _ \<Rightarrow> False)"

definition num_le :: "int option \<Rightarrow> int option \<Rightarrow> bool" where
  "num_le a b = (case (a, b) of (Some x, Some y) \<Rightarrow> x \<le> y | _ \<Rightarrow> False)"

subsection \<open>Events and options\<close>

text \<open>
  An event as the packer reads it. The packer never tests \<open>start\<close> for absence, and
  tests \<open>end\<close> in \<open>buildEvent\<close> only; \<open>end'\<close> is the source's \<open>end\<close>, \<open>None\<close> when absent.
  \<open>summary\<close> stands for the passthrough fields.
\<close>

record TimedEvent =
  start :: timeValue
  end' :: "timeValue option"
  summary :: string

record PartialPackedEvent = TimedEvent +
  index :: nat

record PackedEvent = PartialPackedEvent +
  top' :: real
  height :: real
  width :: real
  left :: real
  zIndex :: int

record PopulateOptions =
  screenWidth :: "real option"
  dayStart :: "real option"
  hourBlockHeight :: "real option"
  overlapEventsSpacing :: "real option"
  rightEdgeSpacing :: "real option"

definition HOUR_BLOCK_HEIGHT :: real where
  "HOUR_BLOCK_HEIGHT = 100"

definition RIGHT_EDGE_SPACING :: real where
  "RIGHT_EDGE_SPACING = 10"

subsection \<open>Helpers\<close>

text \<open>\<open>eventA.start >= eventB.start && eventA.end <= eventB.end\<close>, on the values as they are.\<close>

definition isEventContained :: "'a TimedEvent_scheme \<Rightarrow> 'b TimedEvent_scheme \<Rightarrow> bool" where
  "isEventContained eventA eventB \<longleftrightarrow>
     js_le (Some (start eventB)) (Some (start eventA)) \<and> js_le (end' eventA) (end' eventB)"

text \<open>
  The duration in milliseconds. Here the source converts both values with \<open>new Date\<close>, so
  the representation does not matter; \<open>None\<close> is the \<open>NaN\<close> of an absent \<open>end\<close>.
\<close>

definition getEventDuration :: "'a TimedEvent_scheme \<Rightarrow> int option" where
  "getEventDuration event =
     (case end' event of
        Some e \<Rightarrow> Some (instantOf e - instantOf (start event))
      | None \<Rightarrow> None)"

text \<open>\<open>a.diffHours(b)\<close> of XDate: the hours from \<open>a\<close> to \<open>b\<close>, fractions included.\<close>

definition diffHours :: "instant \<Rightarrow> instant \<Rightarrow> real" where
  "diffHours a b = real_of_int (b - a) / real_of_int msPerHour"

text \<open>
  \<open>buildEvent\<close>. Of XDate it uses \<open>clearTime()\<close>, which sets the time of day to 00:00:00.000
  (the \<open>setHours(0, 0, 0, 0)\<close> above), \<open>addHours(1)\<close>, which adds an hour, and \<open>diffHours\<close>.
  \<open>new XDate(v)\<close> reads the instant of a \<open>Date\<close> object or of a string. The test
  \<open>event.end ? ... : ...\<close> takes the second branch when \<open>end\<close> is absent.
\<close>

definition buildEvent ::
  "PartialPackedEvent \<Rightarrow> real \<Rightarrow> real \<Rightarrow> PopulateOptions \<Rightarrow> int \<Rightarrow> PackedEvent" where
  "buildEvent event left_arg width_arg options zIndex_arg =
     (let dayStart_v = (case dayStart options of Some v \<Rightarrow> v | None \<Rightarrow> 0);
          hourBlockHeight_v =
            (case hourBlockHeight options of Some v \<Rightarrow> v | None \<Rightarrow> HOUR_BLOCK_HEIGHT);
          startTime = instantOf (start event);
          endTime = (case end' event of
                       Some e \<Rightarrow> instantOf e
                     | None \<Rightarrow> startTime + 1 * msPerHour);
          dayStartTime = setHours_0_0_0_0 startTime
      in \<lparr>start = start event, end' = end' event, summary = summary event,
          index = index event,
          top' = (diffHours dayStartTime startTime - dayStart_v) * hourBlockHeight_v,
          height = diffHours startTime endTime * hourBlockHeight_v,
          width = width_arg,
          left = left_arg,
          zIndex = zIndex_arg\<rparr>)"

text \<open>\<open>a.end > b.start && a.start < b.end\<close>, on the values as they are.\<close>

definition hasCollision :: "'a TimedEvent_scheme \<Rightarrow> 'b TimedEvent_scheme \<Rightarrow> bool" where
  "hasCollision a b \<longleftrightarrow>
     js_lt (Some (start b)) (end' a) \<and> js_lt (Some (start a)) (end' b)"

text \<open>
  The loop of \<open>calcColumnSpan\<close> over the columns right of \<open>columnIndex\<close>: it returns at
  the first column in which \<open>find\<close> meets a colliding event.
\<close>

fun columnSpanLoop :: "PartialPackedEvent \<Rightarrow> nat \<Rightarrow> PartialPackedEvent list list \<Rightarrow> nat" where
  "columnSpanLoop event colSpan [] = colSpan"
| "columnSpanLoop event colSpan (column # rest) =
     (case find (\<lambda>ev. hasCollision event ev) column of
        Some foundCollision \<Rightarrow> colSpan
      | None \<Rightarrow> columnSpanLoop event (colSpan + 1) rest)"

definition calcColumnSpan ::
  "PartialPackedEvent \<Rightarrow> nat \<Rightarrow> PartialPackedEvent list list \<Rightarrow> nat" where
  "calcColumnSpan event columnIndex columns =
     columnSpanLoop event 1 (drop (columnIndex + 1) columns)"

subsection \<open>Geometry of one overlap group\<close>

record EventInfo =
  info_event :: PartialPackedEvent
  info_left :: real
  info_width :: real
  info_duration :: "int option"
  info_columnIndex :: nat

text \<open>
  \<open>constants.screenWidth\<close> is read from a module that is not among the sources; it is
  the first argument of every function that needs the default.
\<close>

definition totalWidth :: "real \<Rightarrow> PopulateOptions \<Rightarrow> real" where
  "totalWidth constants_screenWidth populateOptions =
     (case screenWidth populateOptions of Some v \<Rightarrow> v | None \<Rightarrow> constants_screenWidth)
     - (case rightEdgeSpacing populateOptions of Some v \<Rightarrow> v | None \<Rightarrow> RIGHT_EDGE_SPACING)"

text \<open>
  The first pass: one entry for every event, column after column. The quotients by
  \<open>columns.length\<close> are computed for an event of a column only, so the divisor is at
  least 1.
\<close>

definition eventsInGroup ::
  "real \<Rightarrow> PartialPackedEvent list list \<Rightarrow> PopulateOptions \<Rightarrow> EventInfo list" where
  "eventsInGroup constants_screenWidth columns populateOptions =
     concat (map (\<lambda>(columnIndex, column).
       map (\<lambda>event.
         (let columnSpan = calcColumnSpan event columnIndex columns;
              eventLeft = (real columnIndex / real (length columns))
                          * totalWidth constants_screenWidth populateOptions;
              eventWidth = totalWidth constants_screenWidth populateOptions
                           * (real columnSpan / real (length columns))
          in \<lparr>info_event = event, info_left = eventLeft, info_width = eventWidth,
              info_duration = getEventDuration event, info_columnIndex = columnIndex\<rparr>))
         column)
       (enumerate 0 columns))"

text \<open>One turn of the inner \<open>forEach\<close> of the second pass, on the running \<open>zIndex\<close>.\<close>

definition containmentStep :: "EventInfo \<Rightarrow> nat \<Rightarrow> nat \<times> EventInfo \<Rightarrow> int \<Rightarrow> int" where
  "containmentStep eventInfo index_arg other zIndex_acc =
     (case other of (otherIndex, otherEventInfo) \<Rightarrow>
        if index_arg \<noteq> otherIndex
           \<and> isEventContained (info_event eventInfo) (info_event otherEventInfo)
        then (if num_le (info_duration eventInfo) (info_duration otherEventInfo)
              then zIndex_acc + 10 else zIndex_acc)
        else zIndex_acc)"

definition computeZIndex :: "EventInfo list \<Rightarrow> nat \<Rightarrow> EventInfo \<Rightarrow> int" where
  "computeZIndex infos index_arg eventInfo =
     (let zIndex_v = fold (containmentStep eventInfo index_arg) (enumerate 0 infos) 0
      in if num_lt (info_duration eventInfo) (Some (60 * 60 * 1000))
         then zIndex_v + 5 else zIndex_v)"

definition packOverlappingEventGroup ::
  "real \<Rightarrow> PartialPackedEvent list list \<Rightarrow> PackedEvent list \<Rightarrow> PopulateOptions \<Rightarrow>
   PackedEvent list" where
  "packOverlappingEventGroup constants_screenWidth columns calculatedEvents populateOptions =
     (let infos = eventsInGroup constants_screenWidth columns populateOptions
      in calculatedEvents @
         map (\<lambda>(index_v, eventInfo).
                buildEvent (info_event eventInfo) (info_left eventInfo) (info_width eventInfo)
                  populateOptions (computeZIndex infos index_v eventInfo))
             (enumerate 0 infos))"

subsection \<open>Sorting\<close>

definition compareEvents :: "PartialPackedEvent \<Rightarrow> PartialPackedEvent \<Rightarrow> int" where
  "compareEvents a b =
     (if js_lt (Some (start a)) (Some (start b)) then - 1
      else if js_lt (Some (start b)) (Some (start a)) then 1
      else let aDuration = getEventDuration a; bDuration = getEventDuration b
           in if num_lt aDuration bDuration then - 1
              else if num_lt bDuration aDuration then 1
              else if js_lt (end' a) (end' b) then - 1
              else if js_lt (end' b) (end' a) then 1
              else 0)"

text \<open>
  \<open>Array.prototype.sort\<close> is stable, and a comparator that orders its inputs consistently
  leaves one stable sorted arrangement; the model reaches it by insertion. (With absent
  ends, or with \<open>Date\<close> objects next to strings, the comparator need not be consistent, and
  JavaScript then leaves the order to the engine.)
\<close>

fun insertEvent :: "PartialPackedEvent \<Rightarrow> PartialPackedEvent list \<Rightarrow> PartialPackedEvent list" where
  "insertEvent x [] = [x]"
| "insertEvent x (y # ys) =
     (if compareEvents x y \<le> 0 then x # y # ys else y # insertEvent x ys)"

definition sortEvents :: "PartialPackedEvent list \<Rightarrow> PartialPackedEvent list" where
  "sortEvents xs = foldr insertEvent xs []"

text \<open>\<open>_events.map((ev, index) => ({...ev, index: index}))\<close>\<close>

definition withIndex :: "TimedEvent list \<Rightarrow> PartialPackedEvent list" where
  "withIndex events_arg =
     map (\<lambda>(i, ev). \<lparr>start = start ev, end' = end' ev, summary = summary ev, index = i\<rparr>)
         (enumerate 0 events_arg)"

subsection \<open>The packing loop\<close>

text \<open>
  \<open>lastEnd\<close> is \<open>null\<close> (\<open>None\<close>) or the \<open>end\<close> of an event, which may itself be absent.
\<close>

record PackState =
  lastEnd :: "timeValue option option"
  columns :: "PartialPackedEvent list list"
  calculatedEvents :: "PackedEvent list"

text \<open>\<open>lastEnd !== null && ev.start >= lastEnd\<close>\<close>

definition startsNewGroup :: "timeValue option option \<Rightarrow> PartialPackedEvent \<Rightarrow> bool" where
  "startsNewGroup lastEnd_v ev =
     (case lastEnd_v of None \<Rightarrow> False | Some e \<Rightarrow> js_le e (Some (start ev)))"

text \<open>
  The \<open>for\<close> loop with its \<open>break\<close>: the columns after the event went into the first column
  whose last event does not collide with it, or \<open>None\<close> when \<open>placed\<close> stays false. Every
  column holds an event (a column is born with one), so \<open>last col\<close> is the source's
  \<open>col[col.length - 1]\<close>.
\<close>

fun placeInColumns ::
  "PartialPackedEvent \<Rightarrow> PartialPackedEvent list list \<Rightarrow> PartialPackedEvent list list option" where
  "placeInColumns ev [] = None"
| "placeInColumns ev (col # cols) =
     (if \<not> hasCollision (last col) ev then Some ((col @ [ev]) # cols)
      else map_option ((#) col) (placeInColumns ev cols))"

definition placeEvent ::
  "PartialPackedEvent \<Rightarrow> PartialPackedEvent list list \<Rightarrow> PartialPackedEvent list list" where
  "placeEvent ev columns_v =
     (case placeInColumns ev columns_v of
        Some placed \<Rightarrow> placed
      | None \<Rightarrow> columns_v @ [[ev]])"

text \<open>\<open>if (lastEnd === null || ev.end > lastEnd) lastEnd = ev.end\<close>\<close>

definition nextLastEnd ::
  "timeValue option option \<Rightarrow> PartialPackedEvent \<Rightarrow> timeValue option option" where
  "nextLastEnd lastEnd_v ev =
     (case lastEnd_v of
        None \<Rightarrow> Some (end' ev)
      | Some e \<Rightarrow> if js_lt e (end' ev) then Some (end' ev) else Some e)"

definition populateStep :: "real \<Rightarrow> PopulateOptions \<Rightarrow> PartialPackedEvent \<Rightarrow> PackState \<Rightarrow> PackState" where
  "populateStep constants_screenWidth populateOptions ev st =
     (let st1 = (if startsNewGroup (lastEnd st) ev
                 then \<lparr>lastEnd = None, columns = [],
                       calculatedEvents =
                         packOverlappingEventGroup constants_screenWidth (columns st)
                           (calculatedEvents st) populateOptions\<rparr>
                 else st)
      in \<lparr>lastEnd = nextLastEnd (lastEnd st1) ev,
          columns = placeEvent ev (columns st1),
          calculatedEvents = calculatedEvents st1\<rparr>)"

definition populateEvents :: "real \<Rightarrow> TimedEvent list \<Rightarrow> PopulateOptions \<Rightarrow> PackedEvent list" where
  "populateEvents constants_screenWidth events_arg populateOptions =
     (let events = sortEvents (withIndex events_arg);
          st = fold (populateStep constants_screenWidth populateOptions) events
                 \<lparr>lastEnd = None, columns = [], calculatedEvents = []\<rparr>
      in if length (columns st) > 0
         then packOverlappingEventGroup constants_screenWidth (columns st)
                (calculatedEvents st) populateOptions
         else calculatedEvents st)"

text \<open>
  The overlap groups: the column sets that the loop hands to
  \<open>packOverlappingEventGroup\<close>, in the order of the calls. The loop is the one above with
  the list of flushed column sets in the place of \<open>calculatedEvents\<close>.
\<close>

record GroupState =
  g_lastEnd :: "timeValue option option"
  g_columns :: "PartialPackedEvent list list"
  g_flushed :: "PartialPackedEvent list list list"

definition groupStep :: "PartialPackedEvent \<Rightarrow> GroupState \<Rightarrow> GroupState" where
  "groupStep ev st =
     (let st1 = (if startsNewGroup (g_lastEnd st) ev
                 then \<lparr>g_lastEnd = None, g_columns = [],
                       g_flushed = g_flushed st @ [g_columns st]\<rparr>
                 else st)
      in \<lparr>g_lastEnd = nextLastEnd (g_lastEnd st1) ev,
          g_columns = placeEvent ev (g_columns st1),
          g_flushed = g_flushed st1\<rparr>)"

definition overlapGroups :: "TimedEvent list \<Rightarrow> PartialPackedEvent list list list" where
  "overlapGroups events_arg =
     (let st = fold groupStep (sortEvents (withIndex events_arg))
                 \<lparr>g_lastEnd = None, g_columns = [], g_flushed = []\<rparr>
      in if length (g_columns st) > 0 then g_flushed st @ [g_columns st] else g_flushed st)"




text \<open>An event with \<open>start\<close> and \<open>end\<close> present whose start is not after its end.\<close>

definition wellFormed :: "'a TimedEvent_scheme \<Rightarrow> bool" where
  "wellFormed ev \<longleftrightarrow>
     (case end' ev of Some e \<Rightarrow> instantOf (start ev) \<le> instantOf e | None \<Rightarrow> False)"

text \<open>
  The time ranges of two events collide, and the range of one lies in the range of the
  other: the tests of \<open>hasCollision\<close> and \<open>isEventContained\<close> on the instants, whatever
  holds them.
\<close>

definition rangesCollide :: "'a TimedEvent_scheme \<Rightarrow> 'b TimedEvent_scheme \<Rightarrow> bool" where
  "rangesCollide a b \<longleftrightarrow>
     (case (end' a, end' b) of
        (Some ea, Some eb) \<Rightarrow>
          instantOf ea > instantOf (start b) \<and> instantOf (start a) < instantOf eb
      | _ \<Rightarrow> False)"

definition rangeContained :: "'a TimedEvent_scheme \<Rightarrow> 'b TimedEvent_scheme \<Rightarrow> bool" where
  "rangeContained a b \<longleftrightarrow>
     instantOf (start a) \<ge> instantOf (start b)
     \<and> (case (end' a, end' b) of
          (Some ea, Some eb) \<Rightarrow> instantOf ea \<le> instantOf eb
        | _ \<Rightarrow> False)"

text \<open>
  Two events hold their starts in the same representation, and their ends too (both
  \<open>Date\<close> objects or both strings): then the source's comparisons between them are
  comparisons of instants.
\<close>

definition sameRepresentation :: "'a TimedEvent_scheme \<Rightarrow> 'b TimedEvent_scheme \<Rightarrow> bool" where
  "sameRepresentation a b \<longleftrightarrow>
     isDateObject (start a) = isDateObject (start b)
     \<and> (case (end' a, end' b) of
          (Some ea, Some eb) \<Rightarrow> isDateObject ea = isDateObject eb
        | _ \<Rightarrow> True)"

text \<open>All values of an event are \<open>Date\<close> objects (\<open>asDate\<close>), or all are strings.\<close>

definition heldAs :: "bool \<Rightarrow> 'a TimedEvent_scheme \<Rightarrow> bool" where
  "heldAs asDate ev \<longleftrightarrow>
     isDateObject (start ev) = asDate
     \<and> (case end' ev of Some e \<Rightarrow> isDateObject e = asDate | None \<Rightarrow> True)"

section \<open>Unavailable hours\<close>

record UnavailableHours =
  hours_start :: real
  hours_end :: real

text \<open>
  The options of \<open>buildUnavailableHoursBlocks\<close>; each field may be absent and then takes
  the default of the destructuring pattern.
\<close>

record UnavailableHoursOptions =
  uh_hourBlockHeight :: "real option"
  uh_dayStart :: "real option"
  uh_dayEnd :: "real option"

text \<open>
  A block; \<open>block_top\<close> is \<open>None\<close> when the source's expression is no finite number, which
  is the case exactly when \<open>dayEnd - dayStart\<close> is 0 (a division by zero, then a product
  with the zero \<open>totalDayHeight\<close>).
\<close>

record UnavailableHoursBlock =
  block_top :: "real option"
  block_height :: real

text \<open>\<open>inRange(number, start, end)\<close> of lodash.\<close>

definition inRange :: "real \<Rightarrow> real \<Rightarrow> real \<Rightarrow> bool" where
  "inRange number start_arg end_arg \<longleftrightarrow>
     min start_arg end_arg \<le> number \<and> number < max start_arg end_arg"

definition msgHoursRange :: string where
  "msgHoursRange =
     ''Calendar Timeline unavailableHours is invalid. Hours should be between 0 and 24''"

definition msgHoursOrder :: string where
  "msgHoursOrder =
     ''Calendar Timeline availableHours is invalid. start hour should be earlier than end hour''"

text \<open>
  The callback of \<open>map\<close>: the block or \<open>undefined\<close> (\<open>None\<close>), and the lines it writes with
  \<open>console.error\<close>.
\<close>

definition hoursToBlock ::
  "UnavailableHoursOptions \<Rightarrow> UnavailableHours \<Rightarrow> UnavailableHoursBlock option \<times> string list" where
  "hoursToBlock options hours =
     (let hourBlockHeight_v =
            (case uh_hourBlockHeight options of Some v \<Rightarrow> v | None \<Rightarrow> HOUR_BLOCK_HEIGHT);
          dayStart_v = (case uh_dayStart options of Some v \<Rightarrow> v | None \<Rightarrow> 0);
          dayEnd_v = (case uh_dayEnd options of Some v \<Rightarrow> v | None \<Rightarrow> 24);
          totalDayHours = dayEnd_v - dayStart_v;
          totalDayHeight = (dayEnd_v - dayStart_v) * hourBlockHeight_v
      in if \<not> inRange (hours_start hours) 0 25 \<or> \<not> inRange (hours_end hours) 0 25
           then (None, [msgHoursRange])
         else if hours_start hours \<ge> hours_end hours
           then (None, [msgHoursOrder])
         else
           (let startFixed = max (hours_start hours) dayStart_v;
                endFixed = min (hours_end hours) dayEnd_v
            in (Some \<lparr>block_top =
                        (if totalDayHours = 0 then None
                         else Some (((startFixed - dayStart_v) / totalDayHours) * totalDayHeight)),
                      block_height = (endFixed - startFixed) * hourBlockHeight_v\<rparr>,
                [])))"

text \<open>
  \<open>.map(...).filter(Boolean)\<close>: a block is an object, hence truthy, so the filter removes
  the \<open>undefined\<close> entries and nothing else. The result is the array and the console
  output.
\<close>

definition buildUnavailableHoursBlocks ::
  "UnavailableHours list \<Rightarrow> UnavailableHoursOptions \<Rightarrow> UnavailableHoursBlock list \<times> string list" where
  "buildUnavailableHoursBlocks unavailableHours options =
     (let mapped = map (hoursToBlock options) unavailableHours
      in (map the (filter (\<lambda>b. b \<noteq> None) (map fst mapped)), concat (map snd mapped)))"

text \<open>The validation in the spec's words.\<close>

definition validRange :: "UnavailableHours \<Rightarrow> bool" where
  "validRange hours \<longleftrightarrow>
     0 \<le> hours_start hours \<and> hours_start hours < 25 \<and>
     0 \<le> hours_end hours \<and> hours_end hours < 25 \<and>
     hours_start hours < hours_end hours"

section \<open>Notions used in the proofs\<close>

text \<open>
  The order the comparator puts on events with present ends whose values are all held
  the same way, as far as the packing loop relies on it: by start, then by duration.
\<close>

definition sortsBefore :: "PartialPackedEvent \<Rightarrow> PartialPackedEvent \<Rightarrow> bool" where
  "sortsBefore a b \<longleftrightarrow>
     instantOf (start a) < instantOf (start b)
     \<or> (instantOf (start a) = instantOf (start b)
        \<and> num_le (getEventDuration a) (getEventDuration b))"

text \<open>
  A well-formed event all of whose values are held the same way, and what the loop keeps
  true of every column when its input consists of such events: the column holds an
  event, its events are in sorted order, and no two of them collide.
\<close>

definition regularAs :: "bool \<Rightarrow> 'a TimedEvent_scheme \<Rightarrow> bool" where
  "regularAs asDate ev \<longleftrightarrow> wellFormed ev \<and> heldAs asDate ev"

definition columnOK :: "bool \<Rightarrow> PartialPackedEvent list \<Rightarrow> bool" where
  "columnOK asDate col \<longleftrightarrow>
     col \<noteq> [] \<and> sorted_wrt sortsBefore col
     \<and> sorted_wrt (\<lambda>a b. \<not> hasCollision a b) col
     \<and> (\<forall>x \<in> set col. regularAs asDate x)"

text \<open>
  The points event \<open>k\<close> of a group earns from event \<open>j\<close> in the second pass: 10 when \<open>j\<close> is
  another event that contains \<open>k\<close> and is not shorter.
\<close>

definition containmentPoints :: "PartialPackedEvent list \<Rightarrow> nat \<Rightarrow> nat \<Rightarrow> int" where
  "containmentPoints es k j =
     (if k \<noteq> j \<and> isEventContained (es ! k) (es ! j)
         \<and> num_le (getEventDuration (es ! k)) (getEventDuration (es ! j))
      then 10 else 0)"

section \<open>Example inputs\<close>

text \<open>
  Day 0 stands for January 1. The trip runs from January 1, 10:00 to January 3, 14:00;
  lunch is January 1, 12:00 to 13:00; the draft has no end.
\<close>

definition tripEvent :: Event where
  "tripEvent = \<lparr>ev_start = Some 36000000, ev_end = Some 223200000, allDay = False,
                 title = ''trip''\<rparr>"



text \<open>Unavailable hours: some ranges, the default options, and a day shown from 8 to 18.\<close>

definition sampleHours :: "UnavailableHours list" where
  "sampleHours =
     [\<lparr>hours_start = 1, hours_end = 5\<rparr>, \<lparr>hours_start = 23, hours_end = 26\<rparr>,
      \<lparr>hours_start = 7, hours_end = 3\<rparr>, \<lparr>hours_start = 9, hours_end = 10\<rparr>]"

definition defaultHoursOptions :: UnavailableHoursOptions where
  "defaultHoursOptions = \<lparr>uh_hourBlockHeight = None, uh_dayStart = None, uh_dayEnd = None\<rparr>"

definition officeOptions :: UnavailableHoursOptions where
  "officeOptions = \<lparr>uh_hourBlockHeight = None, uh_dayStart = Some 8, uh_dayEnd = Some 18\<rparr>"

text \<open>A morning shown from 8 to 12 at 50 pixels an hour, and a day drawn upside down.\<close>

definition morningOptions :: UnavailableHoursOptions where
  "morningOptions = \<lparr>uh_hourBlockHeight = Some 50, uh_dayStart = Some 8, uh_dayEnd = Some 12\<rparr>"

definition flippedOptions :: UnavailableHoursOptions where
  "flippedOptions = \<lparr>uh_hourBlockHeight = Some (- 1), uh_dayStart = Some 8, uh_dayEnd = None\<rparr>"

text \<open>
  Timed events of one day, in milliseconds from midnight, with their values as strings:
  A is 09:00 to 10:00, B 09:30 to 10:30, the workshop 08:00 to 11:00, the standup 09:00
  to 09:15; the note starts at 14:00 and has no end, the instant event starts and ends at
  12:00.
\<close>

definition morningA :: TimedEvent where
  "morningA = \<lparr>start = DateString 32400000, end' = Some (DateString 36000000),
                summary = ''A''\<rparr>"

definition morningB :: TimedEvent where
  "morningB = \<lparr>start = DateString 34200000, end' = Some (DateString 37800000),
                summary = ''B''\<rparr>"

definition workshop :: TimedEvent where
  "workshop = \<lparr>start = DateString 28800000, end' = Some (DateString 39600000),
                summary = ''workshop''\<rparr>"

definition standup :: TimedEvent where
  "standup = \<lparr>start = DateString 32400000, end' = Some (DateString 33300000),
               summary = ''standup''\<rparr>"

definition noteEvent :: TimedEvent where
  "noteEvent = \<lparr>start = DateString 50400000, end' = None, summary = ''note''\<rparr>"

definition instantEvent :: TimedEvent where
  "instantEvent = \<lparr>start = DateString 43200000, end' = Some (DateString 43200000),
                    summary = ''instant''\<rparr>"

text \<open>
  A day as the timeline hands it to the packer after \<open>createEventSegments\<close>: the last piece
  of a multi-day event that ends at 01:00 and the first piece of one that starts at 00:45
  (both pieces carry \<open>Date\<close> objects; a first piece ends at 23:59:59.999), and between them a
  single-day event from 00:30 to 02:00 with the caller's strings.
\<close>

definition lastPiece :: TimedEvent where
  "lastPiece = \<lparr>start = DateObject 0, end' = Some (DateObject 3600000),
                 summary = ''last piece''\<rparr>"

definition nightCall :: TimedEvent where
  "nightCall = \<lparr>start = DateString 1800000, end' = Some (DateString 7200000),
                 summary = ''night call''\<rparr>"

definition firstPiece :: TimedEvent where
  "firstPiece = \<lparr>start = DateObject 2700000, end' = Some (DateObject 86399999),
                  summary = ''first piece''\<rparr>"

text \<open>A single-day event from 10:00 to 11:30 with the caller's strings.\<close>

definition lateCall :: TimedEvent where
  "lateCall = \<lparr>start = DateString 36000000, end' = Some (DateString 41400000),
                summary = ''late call''\<rparr>"

text \<open>
  Options: a day shown from 8:00 on a column 310 pixels wide (300 usable), and a column
  only as wide as the default right edge spacing (nothing usable).
\<close>

definition sampleOptions :: PopulateOptions where
  "sampleOptions = \<lparr>screenWidth = Some 310, dayStart = Some 8, hourBlockHeight = None,
                     overlapEventsSpacing = None, rightEdgeSpacing = None\<rparr>"


text \<open>
  The columns the loop builds from the workshop, the standup and B, from two copies of A,
  and from the two pieces with the night call.
\<close>

definition busyColumns :: "PartialPackedEvent list list" where
  "busyColumns =
     [[\<lparr>start = DateString 28800000, end' = Some (DateString 39600000),
        summary = ''workshop'', index = 0\<rparr>],
      [\<lparr>start = DateString 32400000, end' = Some (DateString 33300000),
        summary = ''standup'', index = 1\<rparr>,
       \<lparr>start = DateString 34200000, end' = Some (DateString 37800000),
        summary = ''B'', index = 2\<rparr>]]"

definition twinColumns :: "PartialPackedEvent list list" where
  "twinColumns =
     [[\<lparr>start = DateString 32400000, end' = Some (DateString 36000000),
        summary = ''A'', index = 0\<rparr>],
      [\<lparr>start = DateString 32400000, end' = Some (DateString 36000000),
        summary = ''A'', index = 1\<rparr>]]"

definition nightColumns :: "PartialPackedEvent list list" where
  "nightColumns =
     [[\<lparr>start = DateObject 0, end' = Some (DateObject 3600000),
        summary = ''last piece'', index = 0\<rparr>,
       \<lparr>start = DateString 1800000, end' = Some (DateString 7200000),
        summary = ''night call'', index = 1\<rparr>,
       \<lparr>start = DateObject 2700000, end' = Some (DateObject 86399999),
        summary = ''first piece'', index = 2\<rparr>]]"

text \<open>The column the loop builds from the first piece and the late call.\<close>

definition lateColumns :: "PartialPackedEvent list list" where
  "lateColumns =
     [[\<lparr>start = DateString 36000000, end' = Some (DateString 41400000),
        summary = ''late call'', index = 1\<rparr>,
       \<lparr>start = DateObject 2700000, end' = Some (DateObject 86399999),
        summary = ''first piece'', index = 0\<rparr>]]"

section \<open>The segmenter: proofs\<close>

subsection \<open>The loop over the days of an event\<close>

lemma day_of_midnight [simp]: "getCalendarDateString (c * msPerDay) = c"
  by (simp add: getCalendarDateString_def msPerDay_def)

lemma midnight_le [simp]: "c * msPerDay \<le> d * msPerDay \<longleftrightarrow> c \<le> d"
  by (simp add: msPerDay_def)

lemma next_midnight [simp]: "setDate_next (c * msPerDay) = (c + 1) * msPerDay"
  by (simp add: setDate_next_def algebra_simps)

lemma segmentLoop_days:
  "ds \<le> c \<Longrightarrow>
   segmentLoop event s e pageDates de (de * msPerDay) segments (c * msPerDay) (nat (c - ds)) =
   segments @ map (\<lambda>d. daySegment event s e de (d * msPerDay) (nat (d - ds)))
                  (filter (\<lambda>d. d \<in> set pageDates) [c..de])"
proof (induction "nat (de + 1 - c)" arbitrary: c segments)
  case 0
  then have "\<not> c \<le> de" by simp
  then show ?case
    by (subst segmentLoop.simps) simp
next
  case (Suc n)
  then have le: "c \<le> de" and n: "n = nat (de + 1 - (c + 1))" by simp_all
  have cnt: "Suc (nat (c - ds)) = nat (c + 1 - ds)" using Suc.prems by simp
  have up: "[c..de] = c # [c + 1..de]" using le by (rule upto_rec1)
  from Suc.prems have "ds \<le> c + 1" by simp
  note IH = Suc.hyps(1) [OF n this]
  show ?case
    apply (subst segmentLoop.simps)
    apply (simp only: midnight_le le if_True next_midnight cnt day_of_midnight IH up)
    apply simp
    done
qed

lemma segmentEvent_multi:
  assumes "ev_start event = Some s" "ev_end event = Some e"
    and "getCalendarDateString s \<noteq> getCalendarDateString e"
  shows "segmentEvent pageDates event segments =
         segments @ multiDaySegments pageDates event s e"
  using assms segmentLoop_days [of "getCalendarDateString s" "getCalendarDateString s"
      event s e pageDates "getCalendarDateString e" segments]
  by (simp add: segmentEvent_def multiDaySegments_def setHours_0_0_0_0_def
      getCalendarDateString_def Let_def)






lemma createEventSegments_single_list:
  "createEventSegments [event] pageDates = segmentEvent pageDates event []"
  by (simp add: createEventSegments_def)

lemma daySegment_date [simp]:
  "segmentDate (daySegment event s e de (d * msPerDay) k) = d"
  by (simp add: daySegment_def Let_def split: prod.splits)

lemma daySegment_flags [simp]:
  "isEventSegment (daySegment event s e de cur k)"
  "originalEvent (daySegment event s e de cur k) = Some event"
  by (simp_all add: daySegment_def Let_def split: prod.splits)

lemma map_segmentDate_multi:
  "map segmentDate (multiDaySegments pageDates event s e) =
   filter (\<lambda>d. d \<in> set pageDates) [getCalendarDateString s..getCalendarDateString e]"
  by (simp add: multiDaySegments_def comp_def)


lemma daySegment_first:
  "daySegment event s e de cur 0 =
     \<lparr>ev_start = Some s, ev_end = Some (setHours_23_59_59_999 cur), allDay = allDay event,
      title = title event, segmentDate = getCalendarDateString cur, isEventSegment = True,
      originalEvent = Some event, dayType = Some StartDay\<rparr>"
  by (simp add: daySegment_def)

lemma daySegment_last:
  "k \<noteq> 0 \<Longrightarrow> getCalendarDateString cur = de \<Longrightarrow>
   daySegment event s e de cur k =
     \<lparr>ev_start = Some (setHours_0_0_0_0 cur), ev_end = Some e, allDay = allDay event,
      title = title event, segmentDate = getCalendarDateString cur, isEventSegment = True,
      originalEvent = Some event, dayType = Some EndDay\<rparr>"
  by (simp add: daySegment_def)

lemma daySegment_middle:
  "k \<noteq> 0 \<Longrightarrow> getCalendarDateString cur \<noteq> de \<Longrightarrow>
   daySegment event s e de cur k =
     \<lparr>ev_start = Some (setHours_0_0_0_0 cur), ev_end = Some (setHours_23_59_59_999 cur),
      allDay = allDay event,
      title = title event, segmentDate = getCalendarDateString cur, isEventSegment = True,
      originalEvent = Some event, dayType = Some MiddleDay\<rparr>"
  by (simp add: daySegment_def)

lemma midnight_start [simp]: "setHours_0_0_0_0 (d * msPerDay) = d * msPerDay"
  by (simp add: setHours_0_0_0_0_def msPerDay_def)

lemma midnight_end [simp]:
  "setHours_23_59_59_999 (d * msPerDay) = d * msPerDay + (23 * 3600000 + 59 * 60000 + 59 * 1000 + 999)"
  by (simp add: setHours_23_59_59_999_def msPerDay_def)

lemma tripEvent_segments:
  "createEventSegments [tripEvent] [0, 1, 2] =
     [\<lparr>ev_start = Some 36000000, ev_end = Some 86399999, allDay = False, title = ''trip'',
       segmentDate = 0, isEventSegment = True, originalEvent = Some tripEvent,
       dayType = Some StartDay\<rparr>,
      \<lparr>ev_start = Some 86400000, ev_end = Some 172799999, allDay = False, title = ''trip'',
       segmentDate = 1, isEventSegment = True, originalEvent = Some tripEvent,
       dayType = Some MiddleDay\<rparr>,
      \<lparr>ev_start = Some 172800000, ev_end = Some 223200000, allDay = False, title = ''trip'',
       segmentDate = 2, isEventSegment = True, originalEvent = Some tripEvent,
       dayType = Some EndDay\<rparr>]"
  by (simp add: createEventSegments_def segmentEvent_def segmentLoop.simps daySegment_def
      getCalendarDateString_def setHours_0_0_0_0_def setHours_23_59_59_999_def
      setDate_next_def msPerDay_def tripEvent_def)

subsection \<open>Segment coverage\<close>

text \<open>
  Claim C2. An event whose start and end are present, fall on different calendar dates
  and satisfy start \<open>\<le>\<close> end yields exactly one segment for each date of its span
  \<open>[D0..Dn]\<close> that is a page date: the dates of its segments are the dates of the span that
  occur in \<open>pageDates\<close>, in order, none twice and none left out. Every such segment has
  \<open>isEventSegment = true\<close> and \<open>originalEvent\<close> the source event itself. (By
  \<open>createEventSegments_concat\<close> the segments of a list of events are those of its events,
  one event after the other.)
\<close>

theorem C2_segment_coverage:
  assumes "ev_start event = Some s" and "ev_end event = Some e"
    and "getCalendarDateString s \<noteq> getCalendarDateString e"
    and "s \<le> e"
  shows "map segmentDate (createEventSegments [event] pageDates) =
           filter (\<lambda>d. d \<in> set pageDates)
                  [getCalendarDateString s..getCalendarDateString e]
       \<and> distinct (map segmentDate (createEventSegments [event] pageDates))
       \<and> set (map segmentDate (createEventSegments [event] pageDates)) =
           {getCalendarDateString s..getCalendarDateString e} \<inter> set pageDates
       \<and> (\<forall>seg \<in> set (createEventSegments [event] pageDates).
             isEventSegment seg \<and> originalEvent seg = Some event)"
proof -
  have eq: "createEventSegments [event] pageDates = multiDaySegments pageDates event s e"
    using segmentEvent_multi [OF assms(1-3), of pageDates "[]"]
    by (simp add: createEventSegments_single_list)
  have dates: "map segmentDate (createEventSegments [event] pageDates) =
      filter (\<lambda>d. d \<in> set pageDates) [getCalendarDateString s..getCalendarDateString e]"
    by (simp only: eq map_segmentDate_multi)
  have flags: "\<forall>seg \<in> set (createEventSegments [event] pageDates).
      isEventSegment seg \<and> originalEvent seg = Some event"
    by (auto simp: eq multiDaySegments_def)
  have dist: "distinct (map segmentDate (createEventSegments [event] pageDates))"
    by (simp only: dates) simp
  have st: "set (map segmentDate (createEventSegments [event] pageDates)) =
      {getCalendarDateString s..getCalendarDateString e} \<inter> set pageDates"
    by (simp only: dates) auto
  from dates dist st flags show ?thesis by blast
qed

text \<open>
  The trip of three days on the page dates January 3, January 1 and January 8: its
  segments are dated January 1 and January 3.
\<close>

theorem C2_segment_coverage_witness:
  "(ev_start tripEvent = Some 36000000 \<and> ev_end tripEvent = Some 223200000
    \<and> getCalendarDateString 36000000 \<noteq> getCalendarDateString 223200000
    \<and> (36000000 :: int) \<le> 223200000)
   \<and> map segmentDate (createEventSegments [tripEvent] [2, 0, 7]) = [0, 2]"
proof -
  have h1: "ev_start tripEvent = Some 36000000" by (simp add: tripEvent_def)
  have h2: "ev_end tripEvent = Some 223200000" by (simp add: tripEvent_def)
  have h3: "getCalendarDateString 36000000 \<noteq> getCalendarDateString 223200000"
    by (simp add: getCalendarDateString_def msPerDay_def)
  have h4: "(36000000 :: int) \<le> 223200000" by simp
  have days: "[getCalendarDateString 36000000..getCalendarDateString 223200000] = [0, 1, 2]"
    by (simp add: getCalendarDateString_def msPerDay_def upto_rec1)
  from C2_segment_coverage [OF h1 h2 h3 h4, of "[2, 0, 7]"]
  have "map segmentDate (createEventSegments [tripEvent] [2, 0, 7]) =
        filter (\<lambda>d. d \<in> set [2, 0, 7])
               [getCalendarDateString 36000000..getCalendarDateString 223200000]"
    by (rule conjunct1)
  then have "map segmentDate (createEventSegments [tripEvent] [2, 0, 7]) = [0, 2]"
    by (simp only: days) simp
  with h1 h2 h3 h4 show ?thesis by simp
qed

subsection \<open>Segment boundaries\<close>

text \<open>
  Claim C3. For a multi-day event whose start date and end date are both page dates, the
  segments for these two dates exist; the segment of the start date runs from the
  original start to 23:59:59.999 of that day with \<open>dayType\<close> start; the segment of the
  end date runs from 00:00:00.000 of that day to the original end with \<open>dayType\<close> end;
  every other segment runs from 00:00:00.000 to 23:59:59.999 of its own day with
  \<open>dayType\<close> middle.
\<close>

theorem C3_segment_boundaries:
  assumes "ev_start event = Some s" and "ev_end event = Some e"
    and "getCalendarDateString s < getCalendarDateString e"
    and "getCalendarDateString s \<in> set pageDates"
    and "getCalendarDateString e \<in> set pageDates"
  shows "(\<exists>seg \<in> set (createEventSegments [event] pageDates).
            segmentDate seg = getCalendarDateString s)
       \<and> (\<exists>seg \<in> set (createEventSegments [event] pageDates).
            segmentDate seg = getCalendarDateString e)
       \<and> (\<forall>seg \<in> set (createEventSegments [event] pageDates).
            (segmentDate seg = getCalendarDateString s \<longrightarrow>
               ev_start seg = Some s
               \<and> ev_end seg = Some (getCalendarDateString s * msPerDay
                                      + (23 * 3600000 + 59 * 60000 + 59 * 1000 + 999))
               \<and> dayType seg = Some StartDay)
          \<and> (segmentDate seg = getCalendarDateString e \<longrightarrow>
               ev_start seg = Some (getCalendarDateString e * msPerDay)
               \<and> ev_end seg = Some e
               \<and> dayType seg = Some EndDay)
          \<and> (segmentDate seg \<noteq> getCalendarDateString s
               \<and> segmentDate seg \<noteq> getCalendarDateString e \<longrightarrow>
               ev_start seg = Some (segmentDate seg * msPerDay)
               \<and> ev_end seg = Some (segmentDate seg * msPerDay
                                      + (23 * 3600000 + 59 * 60000 + 59 * 1000 + 999))
               \<and> dayType seg = Some MiddleDay))"
proof -
  let ?ds = "getCalendarDateString s" and ?de = "getCalendarDateString e"
  let ?f = "\<lambda>d. daySegment event s e ?de (d * msPerDay) (nat (d - ?ds))"
  have ne: "?ds \<noteq> ?de" using assms(3) by simp
  have eq: "createEventSegments [event] pageDates = multiDaySegments pageDates event s e"
    using segmentEvent_multi [OF assms(1,2) ne, of pageDates "[]"]
    by (simp add: createEventSegments_single_list)
  have segs: "set (createEventSegments [event] pageDates) =
      ?f ` ({?ds..?de} \<inter> set pageDates)"
    by (auto simp: eq multiDaySegments_def)
  have first: "?f ?ds \<in> set (createEventSegments [event] pageDates)"
    unfolding segs using assms(3,4) by (intro image_eqI [where x = "?ds"]) simp_all
  have final: "?f ?de \<in> set (createEventSegments [event] pageDates)"
    unfolding segs using assms(3,5) by (intro image_eqI [where x = "?de"]) simp_all
  have ex1: "\<exists>seg \<in> set (createEventSegments [event] pageDates). segmentDate seg = ?ds"
    using first daySegment_date by blast
  have ex2: "\<exists>seg \<in> set (createEventSegments [event] pageDates). segmentDate seg = ?de"
    using final daySegment_date by blast
  let ?P = "\<lambda>seg. (segmentDate seg = ?ds \<longrightarrow>
               ev_start seg = Some s
               \<and> ev_end seg = Some (?ds * msPerDay
                                      + (23 * 3600000 + 59 * 60000 + 59 * 1000 + 999))
               \<and> dayType seg = Some StartDay)
          \<and> (segmentDate seg = ?de \<longrightarrow>
               ev_start seg = Some (?de * msPerDay)
               \<and> ev_end seg = Some e
               \<and> dayType seg = Some EndDay)
          \<and> (segmentDate seg \<noteq> ?ds \<and> segmentDate seg \<noteq> ?de \<longrightarrow>
               ev_start seg = Some (segmentDate seg * msPerDay)
               \<and> ev_end seg = Some (segmentDate seg * msPerDay
                                      + (23 * 3600000 + 59 * 60000 + 59 * 1000 + 999))
               \<and> dayType seg = Some MiddleDay)"
  have each: "?P (?f d)" if "?ds \<le> d" for d
  proof (cases "d = ?ds")
    case True
    then show ?thesis using ne by (simp add: daySegment_first)
  next
    case False
    then have k: "nat (d - ?ds) \<noteq> 0" using that by simp
    show ?thesis
    proof (cases "d = ?de")
      case True
      then show ?thesis using ne k by (simp add: daySegment_last)
    next
      case False
      then show ?thesis using \<open>d \<noteq> ?ds\<close> k by (simp add: daySegment_middle)
    qed
  qed
  have all: "\<forall>seg \<in> set (createEventSegments [event] pageDates). ?P seg"
  proof
    fix seg
    assume "seg \<in> set (createEventSegments [event] pageDates)"
    then have "seg \<in> ?f ` ({?ds..?de} \<inter> set pageDates)" by (simp only: segs)
    then obtain d where d: "d \<in> {?ds..?de} \<inter> set pageDates" and seg: "seg = ?f d"
      by (rule imageE)
    from d have "?ds \<le> d" by simp
    then have "?P (?f d)" by (rule each)
    then show "?P seg" by (simp only: seg)
  qed
  from ex1 ex2 all show ?thesis by (intro conjI)
qed

text \<open>
  Scenario 3 of the spec: the trip on the page dates January 1 to 3 (the three segments
  are spelled out in \<open>tripEvent_segments\<close>).
\<close>

theorem C3_segment_boundaries_witness:
  "(ev_start tripEvent = Some 36000000 \<and> ev_end tripEvent = Some 223200000
    \<and> getCalendarDateString 36000000 < getCalendarDateString 223200000
    \<and> getCalendarDateString 36000000 \<in> set [0, 1, 2]
    \<and> getCalendarDateString 223200000 \<in> set [0, 1, 2])
   \<and> (\<exists>seg \<in> set (createEventSegments [tripEvent] [0, 1, 2]).
         segmentDate seg = 0
         \<and> ev_start seg = Some 36000000 \<and> ev_end seg = Some 86399999
         \<and> dayType seg = Some StartDay)
   \<and> (\<exists>seg \<in> set (createEventSegments [tripEvent] [0, 1, 2]).
         segmentDate seg = 2
         \<and> ev_start seg = Some 172800000 \<and> ev_end seg = Some 223200000
         \<and> dayType seg = Some EndDay)"
proof -
  have h1: "ev_start tripEvent = Some 36000000" by (simp add: tripEvent_def)
  have h2: "ev_end tripEvent = Some 223200000" by (simp add: tripEvent_def)
  have d0: "getCalendarDateString 36000000 = 0"
    by (simp add: getCalendarDateString_def msPerDay_def)
  have d2: "getCalendarDateString 223200000 = 2"
    by (simp add: getCalendarDateString_def msPerDay_def)
  have h3: "getCalendarDateString 36000000 < getCalendarDateString 223200000"
    by (simp add: d0 d2)
  have h4: "getCalendarDateString 36000000 \<in> set [0, 1, 2]" by (simp add: d0)
  have h5: "getCalendarDateString 223200000 \<in> set [0, 1, 2]" by (simp add: d2)
  note inst = C3_segment_boundaries [OF h1 h2 h3 h4 h5]
  from inst obtain sa where sa: "sa \<in> set (createEventSegments [tripEvent] [0, 1, 2])"
      "segmentDate sa = getCalendarDateString 36000000"
    by blast
  from inst obtain sb where sb: "sb \<in> set (createEventSegments [tripEvent] [0, 1, 2])"
      "segmentDate sb = getCalendarDateString 223200000"
    by blast
  from inst sa have a: "ev_start sa = Some 36000000 \<and> ev_end sa = Some 86399999
      \<and> dayType sa = Some StartDay"
    by (simp add: d0 d2 msPerDay_def)
  from inst sb have b: "ev_start sb = Some 172800000 \<and> ev_end sb = Some 223200000
      \<and> dayType sb = Some EndDay"
    by (simp add: d0 d2 msPerDay_def)
  from sa a have ex1: "\<exists>seg \<in> set (createEventSegments [tripEvent] [0, 1, 2]).
         segmentDate seg = 0
         \<and> ev_start seg = Some 36000000 \<and> ev_end seg = Some 86399999
         \<and> dayType seg = Some StartDay"
    by (auto simp: d0)
  from sb b have ex2: "\<exists>seg \<in> set (createEventSegments [tripEvent] [0, 1, 2]).
         segmentDate seg = 2
         \<and> ev_start seg = Some 172800000 \<and> ev_end seg = Some 223200000
         \<and> dayType seg = Some EndDay"
    by (auto simp: d2)
  from h1 h2 h3 h4 h5 ex1 ex2 show ?thesis by (intro conjI)
qed

subsection \<open>Skipped events and single-day events\<close>



section \<open>The packer: structure of the result\<close>

text \<open>
  The loop of \<open>populateEvents\<close> and the loop that records the overlap groups move in step,
  so the result of \<open>populateEvents\<close> is the geometry of the overlap groups, group after
  group.
\<close>

lemma map_of_snd_enumerate:
  "map (\<lambda>x. f (snd x)) (enumerate n xs) = map f xs"
  by (induction xs arbitrary: n) simp_all

lemma pack_append:
  "packOverlappingEventGroup c cols calc opts =
   calc @ packOverlappingEventGroup c cols [] opts"
  by (simp add: packOverlappingEventGroup_def Let_def)

lemma pack_concat:
  "packOverlappingEventGroup c cols (concat xs) opts =
   concat xs @ packOverlappingEventGroup c cols [] opts"
  by (rule pack_append)

lemma infos_events:
  "map info_event (eventsInGroup c cols opts) = concat cols"
proof -
  have "map info_event (eventsInGroup c cols opts) =
        concat (map snd (enumerate 0 cols))"
    unfolding eventsInGroup_def
    by (simp add: map_concat comp_def case_prod_unfold Let_def)
  then show ?thesis by simp
qed

lemma buildEvent_fields [simp]:
  "start (buildEvent ev l w opts z) = start ev"
  "end' (buildEvent ev l w opts z) = end' ev"
  "summary (buildEvent ev l w opts z) = summary ev"
  "index (buildEvent ev l w opts z) = index ev"
  "left (buildEvent ev l w opts z) = l"
  "width (buildEvent ev l w opts z) = w"
  "zIndex (buildEvent ev l w opts z) = z"
  by (simp_all add: buildEvent_def Let_def)

lemma buildEvent_truncate [simp]:
  "PartialPackedEvent.truncate (buildEvent ev l w opts z) = ev"
  by (simp add: buildEvent_def Let_def PartialPackedEvent.truncate_def)

lemma pack_events:
  "map PartialPackedEvent.truncate (packOverlappingEventGroup c cols [] opts) = concat cols"
  by (simp add: packOverlappingEventGroup_def Let_def case_prod_unfold comp_def
      map_of_snd_enumerate infos_events)

lemma pack_length:
  "length (packOverlappingEventGroup c cols [] opts) = length (concat cols)"
  using arg_cong [OF pack_events [of c cols opts], of length] by simp

lemma infos_length: "length (eventsInGroup c cols opts) = length (concat cols)"
  using arg_cong [OF infos_events [of c cols opts], of length] by simp

lemma pack_nth:
  assumes "k < length (concat cols)"
  shows "packOverlappingEventGroup c cols [] opts ! k =
     buildEvent (info_event (eventsInGroup c cols opts ! k))
       (info_left (eventsInGroup c cols opts ! k))
       (info_width (eventsInGroup c cols opts ! k)) opts
       (computeZIndex (eventsInGroup c cols opts) k (eventsInGroup c cols opts ! k))"
  using assms
  by (simp add: packOverlappingEventGroup_def Let_def infos_length nth_enumerate_eq)

lemma pack_nth_fields:
  assumes "k < length (concat cols)"
  shows "start (packOverlappingEventGroup c cols [] opts ! k) = start (concat cols ! k)"
    and "end' (packOverlappingEventGroup c cols [] opts ! k) = end' (concat cols ! k)"
proof -
  from assms have k: "k < length (eventsInGroup c cols opts)" by (simp add: infos_length)
  have "info_event (eventsInGroup c cols opts ! k) = map info_event (eventsInGroup c cols opts) ! k"
    using k by simp
  then have ev: "info_event (eventsInGroup c cols opts ! k) = concat cols ! k"
    by (simp only: infos_events)
  show "start (packOverlappingEventGroup c cols [] opts ! k) = start (concat cols ! k)"
    by (simp add: pack_nth [OF assms] ev)
  show "end' (packOverlappingEventGroup c cols [] opts ! k) = end' (concat cols ! k)"
    by (simp add: pack_nth [OF assms] ev)
qed

lemma pack_member:
  assumes "p \<in> set (packOverlappingEventGroup c cols [] opts)"
  shows "\<exists>ev l w z. p = buildEvent ev l w opts z"
  using assms by (auto simp: packOverlappingEventGroup_def Let_def)

lemma populateStep_groupStep:
  assumes "lastEnd st = g_lastEnd gst" and "columns st = g_columns gst"
    and "calculatedEvents st =
         concat (map (\<lambda>cols. packOverlappingEventGroup c cols [] opts) (g_flushed gst))"
  shows "lastEnd (populateStep c opts ev st) = g_lastEnd (groupStep ev gst)
       \<and> columns (populateStep c opts ev st) = g_columns (groupStep ev gst)
       \<and> calculatedEvents (populateStep c opts ev st) =
           concat (map (\<lambda>cols. packOverlappingEventGroup c cols [] opts)
                       (g_flushed (groupStep ev gst)))"
  using assms
  by (simp add: populateStep_def groupStep_def Let_def pack_concat)

lemma fold_populateStep_groupStep:
  assumes "lastEnd st = g_lastEnd gst" and "columns st = g_columns gst"
    and "calculatedEvents st =
         concat (map (\<lambda>cols. packOverlappingEventGroup c cols [] opts) (g_flushed gst))"
  shows "lastEnd (fold (populateStep c opts) evs st) = g_lastEnd (fold groupStep evs gst)
       \<and> columns (fold (populateStep c opts) evs st) = g_columns (fold groupStep evs gst)
       \<and> calculatedEvents (fold (populateStep c opts) evs st) =
           concat (map (\<lambda>cols. packOverlappingEventGroup c cols [] opts)
                       (g_flushed (fold groupStep evs gst)))"
  using assms
proof (induction evs arbitrary: st gst)
  case Nil
  then show ?case by simp
next
  case (Cons ev evs)
  from populateStep_groupStep [OF Cons.prems, of ev]
  have "lastEnd (populateStep c opts ev st) = g_lastEnd (groupStep ev gst)"
    and "columns (populateStep c opts ev st) = g_columns (groupStep ev gst)"
    and "calculatedEvents (populateStep c opts ev st) =
           concat (map (\<lambda>cols. packOverlappingEventGroup c cols [] opts)
                       (g_flushed (groupStep ev gst)))"
    by simp_all
  from Cons.IH [OF this] show ?case by simp
qed

lemma populateEvents_groups:
  "populateEvents c evs opts =
   concat (map (\<lambda>cols. packOverlappingEventGroup c cols [] opts) (overlapGroups evs))"
proof -
  let ?st0 = "\<lparr>lastEnd = None, columns = [], calculatedEvents = []\<rparr>"
  let ?g0 = "\<lparr>g_lastEnd = None, g_columns = [], g_flushed = []\<rparr>"
  let ?es = "sortEvents (withIndex evs)"
  have rel: "columns (fold (populateStep c opts) ?es ?st0) = g_columns (fold groupStep ?es ?g0)"
    "calculatedEvents (fold (populateStep c opts) ?es ?st0) =
       concat (map (\<lambda>cols. packOverlappingEventGroup c cols [] opts)
                   (g_flushed (fold groupStep ?es ?g0)))"
    using fold_populateStep_groupStep [of ?st0 ?g0 c opts ?es] by simp_all
  show ?thesis
    unfolding populateEvents_def overlapGroups_def Let_def
    by (simp add: rel pack_concat)
qed

lemma populateEvents_member:
  assumes "p \<in> set (populateEvents c evs opts)"
  shows "\<exists>ev l w z. p = buildEvent ev l w opts z"
  using assms pack_member by (auto simp: populateEvents_groups)

text \<open>Every event ends in exactly one column of one group.\<close>

lemma mset_insertEvent: "mset (insertEvent x ys) = add_mset x (mset ys)"
  by (induction ys) simp_all

lemma mset_sortEvents: "mset (sortEvents xs) = mset xs"
  by (induction xs) (simp_all add: sortEvents_def mset_insertEvent)

lemma set_sortEvents: "set (sortEvents xs) = set xs"
  using mset_sortEvents [of xs] by (metis set_mset_mset)

lemma placeInColumns_mset:
  "placeInColumns ev cols = Some placed \<Longrightarrow>
   mset (concat placed) = add_mset ev (mset (concat cols))"
proof (induction cols arbitrary: placed)
  case Nil
  then show ?case by simp
next
  case (Cons col cols)
  then show ?case by (auto split: if_splits)
qed

lemma placeEvent_mset:
  "mset (concat (placeEvent ev cols)) = add_mset ev (mset (concat cols))"
  by (simp add: placeEvent_def placeInColumns_mset split: option.splits)

lemma set_placeEvent:
  "set (concat (placeEvent ev cols)) = insert ev (set (concat cols))"
proof -
  have "set_mset (mset (concat (placeEvent ev cols))) =
        set_mset (add_mset ev (mset (concat cols)))"
    by (simp only: placeEvent_mset)
  then show ?thesis by simp
qed

lemma groupStep_mset:
  "mset (concat (concat (g_flushed (groupStep ev gst))))
     + mset (concat (g_columns (groupStep ev gst))) =
   add_mset ev (mset (concat (concat (g_flushed gst))) + mset (concat (g_columns gst)))"
  by (simp add: groupStep_def Let_def placeEvent_mset)

lemma fold_groupStep_mset:
  "mset (concat (concat (g_flushed (fold groupStep evs gst))))
     + mset (concat (g_columns (fold groupStep evs gst))) =
   mset evs + (mset (concat (concat (g_flushed gst))) + mset (concat (g_columns gst)))"
proof (induction evs arbitrary: gst)
  case Nil
  show ?case by simp
next
  case (Cons ev evs)
  show ?case by (simp add: Cons.IH groupStep_mset)
qed

lemma overlapGroups_mset:
  "mset (concat (concat (overlapGroups evs))) = mset (withIndex evs)"
proof -
  let ?g0 = "\<lparr>g_lastEnd = None, g_columns = [], g_flushed = []\<rparr>"
  let ?es = "sortEvents (withIndex evs)"
  from fold_groupStep_mset [of ?es ?g0]
  have total: "mset (concat (concat (g_flushed (fold groupStep ?es ?g0))))
     + mset (concat (g_columns (fold groupStep ?es ?g0))) = mset (withIndex evs)"
    by (simp add: mset_sortEvents)
  show ?thesis
  proof (cases "g_columns (fold groupStep ?es ?g0) = []")
    case True
    with total show ?thesis by (simp add: overlapGroups_def Let_def)
  next
    case False
    with total show ?thesis by (simp add: overlapGroups_def Let_def)
  qed
qed

lemma concat_groups: "concat (map concat xss) = concat (concat xss)"
  by (induction xss) simp_all

lemma populateEvents_truncate:
  "map PartialPackedEvent.truncate (populateEvents c evs opts) =
   concat (concat (overlapGroups evs))"
  by (simp add: populateEvents_groups map_concat comp_def pack_events concat_groups)

text \<open>Evaluation of the examples.\<close>

lemmas group_eval =
  overlapGroups_def sortEvents_def withIndex_def compareEvents_def getEventDuration_def
  num_lt_def num_le_def groupStep_def startsNewGroup_def nextLastEnd_def placeEvent_def
  hasCollision_def Let_def

lemmas pack_eval =
  packOverlappingEventGroup_def eventsInGroup_def calcColumnSpan_def
  totalWidth_def computeZIndex_def containmentStep_def isEventContained_def buildEvent_def
  getEventDuration_def num_lt_def num_le_def hasCollision_def
  diffHours_def setHours_0_0_0_0_def msPerHour_def msPerDay_def HOUR_BLOCK_HEIGHT_def
  RIGHT_EDGE_SPACING_def Let_def

lemma busy_groups: "overlapGroups [workshop, standup, morningB] = [busyColumns]"
  by (simp add: group_eval workshop_def standup_def morningB_def busyColumns_def)

lemma twin_groups: "overlapGroups [morningA, morningA] = [twinColumns]"
  by (simp add: group_eval morningA_def twinColumns_def)

lemma busy_pack:
  "packOverlappingEventGroup 375 busyColumns [] sampleOptions =
     [\<lparr>start = DateString 28800000, end' = Some (DateString 39600000), 
        summary = ''workshop'', index = 0,
       top' = 0, height = 300, width = 150, left = 0, zIndex = 0\<rparr>,
      \<lparr>start = DateString 32400000, end' = Some (DateString 33300000), 
        summary = ''standup'', index = 1,
       top' = 100, height = 25, width = 150, left = 150, zIndex = 15\<rparr>,
      \<lparr>start = DateString 34200000, end' = Some (DateString 37800000), 
        summary = ''B'', index = 2,
       top' = 150, height = 100, width = 150, left = 150, zIndex = 10\<rparr>]"
  by (simp add: pack_eval busyColumns_def sampleOptions_def)

lemma twin_pack:
  "packOverlappingEventGroup 375 twinColumns [] sampleOptions =
     [\<lparr>start = DateString 32400000, end' = Some (DateString 36000000), 
        summary = ''A'', index = 0,
       top' = 100, height = 100, width = 150, left = 0, zIndex = 10\<rparr>,
      \<lparr>start = DateString 32400000, end' = Some (DateString 36000000), 
        summary = ''A'', index = 1,
       top' = 100, height = 100, width = 150, left = 150, zIndex = 10\<rparr>]"
  by (simp add: pack_eval twinColumns_def sampleOptions_def)


lemma note_groups:
  "overlapGroups [noteEvent, instantEvent] =
     [[[\<lparr>start = DateString 43200000, end' = Some (DateString 43200000), summary = ''instant'', index = 1\<rparr>]],
      [[\<lparr>start = DateString 50400000, end' = None, summary = ''note'', index = 0\<rparr>]]]"
  by (simp add: group_eval noteEvent_def instantEvent_def)

lemma night_groups: "overlapGroups [lastPiece, nightCall, firstPiece] = [nightColumns]"
  by (simp add: group_eval lastPiece_def nightCall_def firstPiece_def nightColumns_def)

lemma late_groups: "overlapGroups [firstPiece, lateCall] = [lateColumns]"
  by (simp add: group_eval firstPiece_def lateCall_def lateColumns_def)

lemma late_zIndex:
  "map zIndex (packOverlappingEventGroup 375 lateColumns [] sampleOptions) = [0, 0]"
  by (simp add: pack_eval lateColumns_def sampleOptions_def)

section \<open>The rectangle of an event\<close>

lemma buildEvent_top:
  "top' (buildEvent ev l w opts z) =
     (real_of_int (instantOf (start ev) - (instantOf (start ev) div msPerDay) * msPerDay) / 3600000
      - (case dayStart opts of Some v \<Rightarrow> v | None \<Rightarrow> 0))
     * (case hourBlockHeight opts of Some v \<Rightarrow> v | None \<Rightarrow> HOUR_BLOCK_HEIGHT)"
  by (simp add: buildEvent_def Let_def diffHours_def setHours_0_0_0_0_def msPerHour_def)

lemma buildEvent_height:
  "height (buildEvent ev l w opts z) =
     (case end' ev of
        Some e \<Rightarrow> real_of_int (instantOf e - instantOf (start ev)) / 3600000
      | None \<Rightarrow> 1)
     * (case hourBlockHeight opts of Some v \<Rightarrow> v | None \<Rightarrow> HOUR_BLOCK_HEIGHT)"
  by (simp add: buildEvent_def Let_def diffHours_def msPerHour_def split: option.splits)

text \<open>
  Claim C6. Every event passed to the packer gets one rectangle (the results, without
  their geometry, are the indexed input events in some order), and in each result
  \<open>top\<close> is the hours from the midnight of the start day to the start, less \<open>dayStart\<close>,
  times \<open>hourBlockHeight\<close>, and \<open>height\<close> is the hours from start to end times
  \<open>hourBlockHeight\<close>; with \<open>end\<close> absent the end is start + 1 hour and the height is
  \<open>hourBlockHeight\<close>; with \<open>start = end\<close> the height is 0. The model has a result for
  every input, and its only divisor is the constant 3600000.
\<close>

theorem C6_rectangle:
  "mset (map PartialPackedEvent.truncate (populateEvents c evs opts)) = mset (withIndex evs)
   \<and> (\<forall>p \<in> set (populateEvents c evs opts).
         top' p =
           (real_of_int (instantOf (start p) - (instantOf (start p) div msPerDay) * msPerDay) / 3600000
            - (case dayStart opts of Some v \<Rightarrow> v | None \<Rightarrow> 0))
           * (case hourBlockHeight opts of Some v \<Rightarrow> v | None \<Rightarrow> HOUR_BLOCK_HEIGHT)
       \<and> height p =
           (case end' p of
              Some e \<Rightarrow> real_of_int (instantOf e - instantOf (start p)) / 3600000
            | None \<Rightarrow> 1)
           * (case hourBlockHeight opts of Some v \<Rightarrow> v | None \<Rightarrow> HOUR_BLOCK_HEIGHT)
       \<and> (end' p = None \<longrightarrow>
            height p = (case hourBlockHeight opts of Some v \<Rightarrow> v | None \<Rightarrow> HOUR_BLOCK_HEIGHT))
       \<and> (\<forall>e. end' p = Some e \<and> instantOf e = instantOf (start p) \<longrightarrow> height p = 0))"
proof (intro conjI ballI)
  show "mset (map PartialPackedEvent.truncate (populateEvents c evs opts)) = mset (withIndex evs)"
    by (simp only: populateEvents_truncate overlapGroups_mset)
next
  fix p
  assume "p \<in> set (populateEvents c evs opts)"
  then obtain ev l w z where p: "p = buildEvent ev l w opts z"
    using populateEvents_member by blast
  show "top' p =
           (real_of_int (instantOf (start p) - (instantOf (start p) div msPerDay) * msPerDay) / 3600000
            - (case dayStart opts of Some v \<Rightarrow> v | None \<Rightarrow> 0))
           * (case hourBlockHeight opts of Some v \<Rightarrow> v | None \<Rightarrow> HOUR_BLOCK_HEIGHT)"
    by (simp add: p buildEvent_top)
  show hgt: "height p =
           (case end' p of
              Some e \<Rightarrow> real_of_int (instantOf e - instantOf (start p)) / 3600000
            | None \<Rightarrow> 1)
           * (case hourBlockHeight opts of Some v \<Rightarrow> v | None \<Rightarrow> HOUR_BLOCK_HEIGHT)"
    by (simp add: p buildEvent_height split: option.splits)
  show "end' p = None \<longrightarrow>
            height p = (case hourBlockHeight opts of Some v \<Rightarrow> v | None \<Rightarrow> HOUR_BLOCK_HEIGHT)"
    by (simp add: hgt)
  show "\<forall>e. end' p = Some e \<and> instantOf e = instantOf (start p) \<longrightarrow> height p = 0"
    by (simp add: hgt)
qed

text \<open>
  The note without end and the instant event, on a day shown from 8:00: tops 600 and
  400, heights 100 and 0.
\<close>

theorem C6_rectangle_witness:
  "mset (map PartialPackedEvent.truncate (populateEvents 375 [noteEvent, instantEvent] sampleOptions))
     = mset (withIndex [noteEvent, instantEvent])
   \<and> (\<exists>p \<in> set (populateEvents 375 [noteEvent, instantEvent] sampleOptions).
         start p = DateString 50400000 \<and> end' p = None \<and> top' p = 600 \<and> height p = 100)
   \<and> (\<exists>p \<in> set (populateEvents 375 [noteEvent, instantEvent] sampleOptions).
         start p = DateString 43200000 \<and> end' p = Some (DateString 43200000) \<and> top' p = 400 \<and> height p = 0)"
proof -
  let ?out = "populateEvents 375 [noteEvent, instantEvent] sampleOptions"
  note inst = C6_rectangle [of 375 "[noteEvent, instantEvent]" sampleOptions]
  from inst have perm: "mset (map PartialPackedEvent.truncate ?out)
      = mset (withIndex [noteEvent, instantEvent])"
    by (rule conjunct1)
  have "\<lparr>start = DateString 50400000, end' = None, summary = ''note'', index = 0\<rparr>
      \<in># mset (withIndex [noteEvent, instantEvent])"
    by (simp add: withIndex_def noteEvent_def)
  then have "\<lparr>start = DateString 50400000, end' = None, summary = ''note'', index = 0\<rparr>
      \<in> set (map PartialPackedEvent.truncate ?out)"
    by (simp only: perm [symmetric] set_mset_mset)
  then obtain p where p: "p \<in> set ?out"
    and pt: "PartialPackedEvent.truncate p =
             \<lparr>start = DateString 50400000, end' = None, summary = ''note'', index = 0\<rparr>"
    by auto
  from pt have ps: "start p = DateString 50400000" and pe: "end' p = None"
    by (simp_all add: PartialPackedEvent.truncate_def)
  from inst p have "top' p =
           (real_of_int (instantOf (start p) - (instantOf (start p) div msPerDay) * msPerDay) / 3600000
            - (case dayStart sampleOptions of Some v \<Rightarrow> v | None \<Rightarrow> 0))
           * (case hourBlockHeight sampleOptions of Some v \<Rightarrow> v | None \<Rightarrow> HOUR_BLOCK_HEIGHT)"
    and "end' p = None \<longrightarrow>
            height p = (case hourBlockHeight sampleOptions of Some v \<Rightarrow> v
                        | None \<Rightarrow> HOUR_BLOCK_HEIGHT)"
    by blast+
  with ps pe have "top' p = 600" and "height p = 100"
    by (simp_all add: sampleOptions_def msPerDay_def HOUR_BLOCK_HEIGHT_def)
  with p ps pe have ex1: "\<exists>p \<in> set ?out.
         start p = DateString 50400000 \<and> end' p = None \<and> top' p = 600 \<and> height p = 100"
    by blast
  have "\<lparr>start = DateString 43200000, end' = Some (DateString 43200000), summary = ''instant'', index = 1\<rparr>
      \<in># mset (withIndex [noteEvent, instantEvent])"
    by (simp add: withIndex_def instantEvent_def)
  then have "\<lparr>start = DateString 43200000, end' = Some (DateString 43200000), summary = ''instant'', index = 1\<rparr>
      \<in> set (map PartialPackedEvent.truncate ?out)"
    by (simp only: perm [symmetric] set_mset_mset)
  then obtain q where q: "q \<in> set ?out"
    and qt: "PartialPackedEvent.truncate q =
             \<lparr>start = DateString 43200000, end' = Some (DateString 43200000), summary = ''instant'', index = 1\<rparr>"
    by auto
  from qt have qs: "start q = DateString 43200000" and qe: "end' q = Some (DateString 43200000)"
    by (simp_all add: PartialPackedEvent.truncate_def)
  from inst q have "top' q =
           (real_of_int (instantOf (start q) - (instantOf (start q) div msPerDay) * msPerDay) / 3600000
            - (case dayStart sampleOptions of Some v \<Rightarrow> v | None \<Rightarrow> 0))
           * (case hourBlockHeight sampleOptions of Some v \<Rightarrow> v | None \<Rightarrow> HOUR_BLOCK_HEIGHT)"
    and "end' q = Some (start q) \<longrightarrow> height q = 0"
    by blast+
  with qs qe have "top' q = 400" and "height q = 0"
    by (simp_all add: sampleOptions_def msPerDay_def HOUR_BLOCK_HEIGHT_def)
  with q qs qe have ex2: "\<exists>p \<in> set ?out.
         start p = DateString 43200000 \<and> end' p = Some (DateString 43200000) \<and> top' p = 400 \<and> height p = 0"
    by blast
  from perm ex1 ex2 show ?thesis by (intro conjI)
qed

section \<open>Colliding events and columns\<close>

subsection \<open>The sorted order of values held the same way\<close>

lemma js_lt_Some:
  "js_lt (Some a) (Some b) \<longleftrightarrow> isDateObject a = isDateObject b \<and> instantOf a < instantOf b"
  by (cases a; cases b) simp_all

lemma js_le_Some:
  "js_le (Some a) (Some b) \<longleftrightarrow> isDateObject a = isDateObject b \<and> instantOf a \<le> instantOf b"
  by (cases a; cases b) simp_all

lemma regular_end:
  assumes "regularAs k ev"
  shows "\<exists>e. end' ev = Some e \<and> instantOf (start ev) \<le> instantOf e
           \<and> isDateObject (start ev) = k \<and> isDateObject e = k"
  using assms by (cases "end' ev") (simp_all add: regularAs_def wellFormed_def heldAs_def)

lemma compare_le_sortsBefore:
  assumes "regularAs k a" and "regularAs k b" and "compareEvents a b \<le> 0"
  shows "sortsBefore a b"
proof -
  from regular_end [OF assms(1)] obtain ea where ea: "end' a = Some ea"
    and ka: "isDateObject (start a) = k" "isDateObject ea = k" by blast
  from regular_end [OF assms(2)] obtain eb where eb: "end' b = Some eb"
    and kb: "isDateObject (start b) = k" "isDateObject eb = k" by blast
  from assms(3) show ?thesis
    by (simp add: compareEvents_def sortsBefore_def getEventDuration_def num_lt_def num_le_def
        js_lt_Some ea eb ka kb Let_def split: if_splits)
qed

lemma compare_gt_sortsBefore:
  assumes "regularAs k a" and "regularAs k b" and "\<not> compareEvents a b \<le> 0"
  shows "sortsBefore b a"
proof -
  from regular_end [OF assms(1)] obtain ea where ea: "end' a = Some ea"
    and ka: "isDateObject (start a) = k" "isDateObject ea = k" by blast
  from regular_end [OF assms(2)] obtain eb where eb: "end' b = Some eb"
    and kb: "isDateObject (start b) = k" "isDateObject eb = k" by blast
  from assms(3) show ?thesis
    by (simp add: compareEvents_def sortsBefore_def getEventDuration_def num_lt_def num_le_def
        js_lt_Some ea eb ka kb Let_def split: if_splits)
qed

lemma sortsBefore_trans:
  assumes "regularAs k a" and "regularAs k b" and "regularAs k c"
    and "sortsBefore a b" and "sortsBefore b c"
  shows "sortsBefore a c"
proof -
  from regular_end [OF assms(1)] obtain ea where ea: "end' a = Some ea" by blast
  from regular_end [OF assms(2)] obtain eb where eb: "end' b = Some eb" by blast
  from regular_end [OF assms(3)] obtain ec where ec: "end' c = Some ec" by blast
  from assms(4,5) show ?thesis
    by (auto simp: sortsBefore_def getEventDuration_def num_le_def ea eb ec)
qed

lemma set_insertEvent: "set (insertEvent x ys) = insert x (set ys)"
  by (induction ys) auto

lemma sorted_insertEvent:
  assumes "sorted_wrt sortsBefore ys" and "regularAs k x" and "\<forall>y \<in> set ys. regularAs k y"
  shows "sorted_wrt sortsBefore (insertEvent x ys)"
  using assms
proof (induction ys)
  case Nil
  then show ?case by simp
next
  case (Cons y ys)
  show ?case
  proof (cases "compareEvents x y \<le> 0")
    case True
    with Cons.prems have xy: "sortsBefore x y"
      by (simp add: compare_le_sortsBefore)
    have "\<forall>z \<in> set ys. sortsBefore x z"
    proof
      fix z assume z: "z \<in> set ys"
      with Cons.prems have "sortsBefore y z" and "regularAs k z" and "regularAs k y" by simp_all
      with xy Cons.prems(2) show "sortsBefore x z"
        using sortsBefore_trans by blast
    qed
    with True xy Cons.prems(1) show ?thesis by simp
  next
    case False
    with Cons.prems have yx: "sortsBefore y x"
      by (simp add: compare_gt_sortsBefore)
    from Cons.prems have "sorted_wrt sortsBefore (insertEvent x ys)"
      by (intro Cons.IH) simp_all
    with False yx Cons.prems(1) show ?thesis
      by (simp add: set_insertEvent)
  qed
qed

lemma sorted_sortEvents:
  assumes "\<forall>x \<in> set xs. regularAs k x"
  shows "sorted_wrt sortsBefore (sortEvents xs)"
  using assms
proof (induction xs)
  case Nil
  show ?case by (simp add: sortEvents_def)
next
  case (Cons x xs)
  then have "sorted_wrt sortsBefore (sortEvents xs)" by simp
  moreover have "\<forall>y \<in> set (sortEvents xs). regularAs k y"
    using Cons.prems by (simp add: set_sortEvents)
  ultimately have "sorted_wrt sortsBefore (insertEvent x (sortEvents xs))"
    using Cons.prems by (intro sorted_insertEvent) simp_all
  then show ?case by (simp add: sortEvents_def)
qed

lemma regularAs_same_values:
  assumes "start x = start y" and "end' x = end' y"
  shows "regularAs k x = regularAs k y"
  using assms by (cases "end' y") (simp_all add: regularAs_def wellFormed_def heldAs_def)

lemma regular_withIndex:
  assumes "\<forall>ev \<in> set evs. regularAs k ev"
  shows "\<forall>x \<in> set (withIndex evs). regularAs k x"
proof -
  have same: "regularAs k \<lparr>start = start ev, end' = end' ev, summary = summary ev, index = i\<rparr>
      = regularAs k ev" for ev :: TimedEvent and i
    by (rule regularAs_same_values) simp_all
  have "map (regularAs k) (withIndex evs) =
        map (\<lambda>x. regularAs k (snd x)) (enumerate 0 evs)"
    by (simp add: withIndex_def comp_def case_prod_unfold same)
  then have m: "map (regularAs k) (withIndex evs) = map (regularAs k) evs"
    by (simp only: map_of_snd_enumerate)
  have "(\<forall>x \<in> set (withIndex evs). regularAs k x) \<longleftrightarrow>
        (\<forall>b \<in> set (map (regularAs k) (withIndex evs)). b)"
    by (simp only: set_map) blast
  also have "\<dots> \<longleftrightarrow> (\<forall>b \<in> set (map (regularAs k) evs). b)"
    by (simp only: m)
  also have "\<dots> \<longleftrightarrow> (\<forall>ev \<in> set evs. regularAs k ev)"
    by (simp only: set_map) blast
  finally show ?thesis using assms by simp
qed

subsection \<open>Columns stay free of collisions\<close>

text \<open>
  The loop tests the last event of a column only. When all values are held the same way
  that is enough: an earlier event of the column that does not collide with a later one
  ends before it starts, or both are instants at the same start and then the earlier one
  ends no later either; so it ends before every event that sorts after the later one.
\<close>

lemma no_collision_chain:
  assumes "regularAs k a" and "regularAs k b" and "regularAs k c"
    and "sortsBefore a b" and "sortsBefore b c"
    and "\<not> hasCollision a b"
  shows "\<not> hasCollision a c"
proof -
  from regular_end [OF assms(1)] obtain ea where ea: "end' a = Some ea"
    "instantOf (start a) \<le> instantOf ea"
    and ka: "isDateObject (start a) = k" "isDateObject ea = k" by blast
  from regular_end [OF assms(2)] obtain eb where eb: "end' b = Some eb"
    "instantOf (start b) \<le> instantOf eb"
    and kb: "isDateObject (start b) = k" "isDateObject eb = k" by blast
  from regular_end [OF assms(3)] obtain ec where ec: "end' c = Some ec"
    "instantOf (start c) \<le> instantOf ec"
    and kc: "isDateObject (start c) = k" "isDateObject ec = k" by blast
  from assms(4) have ab: "instantOf (start a) < instantOf (start b)
      \<or> (instantOf (start a) = instantOf (start b)
         \<and> instantOf ea - instantOf (start a) \<le> instantOf eb - instantOf (start b))"
    by (simp add: sortsBefore_def getEventDuration_def num_le_def ea eb)
  from assms(5) have bc: "instantOf (start b) \<le> instantOf (start c)"
    by (auto simp: sortsBefore_def)
  from assms(6) have nab: "instantOf ea \<le> instantOf (start b)
      \<or> instantOf eb \<le> instantOf (start a)"
    by (auto simp: hasCollision_def js_lt_Some ea eb ka kb)
  have "instantOf ea \<le> instantOf (start c)"
    using ab bc nab ea(2) eb(2) by linarith
  then show ?thesis
    by (simp add: hasCollision_def js_lt_Some ea ec)
qed

lemma columnOK_single: "regularAs k ev \<Longrightarrow> columnOK k [ev]"
  by (simp add: columnOK_def)

lemma columnOK_snoc:
  assumes "columnOK k col" and "regularAs k ev"
    and "\<forall>a \<in> set col. sortsBefore a ev"
    and "\<not> hasCollision (last col) ev"
  shows "columnOK k (col @ [ev])"
proof -
  from assms(1) have ne: "col \<noteq> []" and srt: "sorted_wrt sortsBefore col"
    and free: "sorted_wrt (\<lambda>a b. \<not> hasCollision a b) col"
    and wf: "\<forall>x \<in> set col. regularAs k x"
    by (simp_all add: columnOK_def)
  have "\<not> hasCollision a ev" if a: "a \<in> set col" for a
  proof (cases "a \<in> set (butlast col)")
    case True
    from srt ne have "sorted_wrt sortsBefore (butlast col @ [last col])" by simp
    then have "\<forall>x \<in> set (butlast col). sortsBefore x (last col)"
      by (simp only: sorted_wrt_append) simp
    with True have 1: "sortsBefore a (last col)" by blast
    from free ne have "sorted_wrt (\<lambda>a b. \<not> hasCollision a b) (butlast col @ [last col])"
      by simp
    then have "\<forall>x \<in> set (butlast col). \<not> hasCollision x (last col)"
      by (simp only: sorted_wrt_append) simp
    with True have 2: "\<not> hasCollision a (last col)" by blast
    from ne have l: "last col \<in> set col" by simp
    from a wf have wa: "regularAs k a" by blast
    from l wf have wl: "regularAs k (last col)" by blast
    from l assms(3) have 3: "sortsBefore (last col) ev" by blast
    from no_collision_chain [OF wa wl assms(2) 1 3 2]
    show ?thesis .
  next
    case False
    have "set (butlast col @ [last col]) = insert (last col) (set (butlast col))"
      by (simp only: set_append list.set) simp
    then have "set col = insert (last col) (set (butlast col))"
      by (simp only: append_butlast_last_id [OF ne])
    with a False have "a = last col" by blast
    with assms(4) show ?thesis by simp
  qed
  with assms(2,3) ne srt free wf show ?thesis
    by (simp add: columnOK_def sorted_wrt_append)
qed

lemma placeInColumns_OK:
  assumes "\<forall>col \<in> set cols. columnOK k col" and "regularAs k ev"
    and "\<forall>col \<in> set cols. \<forall>a \<in> set col. sortsBefore a ev"
    and "placeInColumns ev cols = Some placed"
  shows "\<forall>col \<in> set placed. columnOK k col"
  using assms
proof (induction cols arbitrary: placed)
  case Nil
  then show ?case by simp
next
  case (Cons col cols)
  from Cons.prems(1) have okc: "columnOK k col" and oks: "\<forall>c \<in> set cols. columnOK k c"
    by simp_all
  from Cons.prems(3) have bc: "\<forall>a \<in> set col. sortsBefore a ev"
    and bs: "\<forall>c \<in> set cols. \<forall>a \<in> set c. sortsBefore a ev"
    by simp_all
  show ?case
  proof (cases "hasCollision (last col) ev")
    case False
    with Cons.prems(4) have placed: "placed = (col @ [ev]) # cols" by simp
    from okc Cons.prems(2) bc False have "columnOK k (col @ [ev])"
      by (rule columnOK_snoc)
    with oks show ?thesis by (simp add: placed)
  next
    case True
    show ?thesis
    proof (cases "placeInColumns ev cols")
      case None
      with True Cons.prems(4) show ?thesis by simp
    next
      case (Some rest)
      with True Cons.prems(4) have placed: "placed = col # rest" by simp
      from oks Cons.prems(2) bs Some have "\<forall>c \<in> set rest. columnOK k c"
        by (rule Cons.IH)
      with okc show ?thesis by (simp add: placed)
    qed
  qed
qed

lemma placeEvent_OK:
  assumes "\<forall>col \<in> set cols. columnOK k col" and "regularAs k ev"
    and "\<forall>col \<in> set cols. \<forall>a \<in> set col. sortsBefore a ev"
  shows "\<forall>col \<in> set (placeEvent ev cols). columnOK k col"
proof (cases "placeInColumns ev cols")
  case None
  with assms(1,2) show ?thesis by (simp add: placeEvent_def columnOK_single)
next
  case (Some placed)
  with placeInColumns_OK [OF assms Some] show ?thesis by (simp add: placeEvent_def)
qed

lemma groupStep_OK:
  assumes fl: "\<forall>cols \<in> set (g_flushed gst). \<forall>col \<in> set cols. columnOK k col"
    and cs: "\<forall>col \<in> set (g_columns gst). columnOK k col"
    and wf: "regularAs k ev"
    and bf: "\<forall>col \<in> set (g_columns gst). \<forall>a \<in> set col. sortsBefore a ev"
  shows "(\<forall>cols \<in> set (g_flushed (groupStep ev gst)). \<forall>col \<in> set cols. columnOK k col)
       \<and> (\<forall>col \<in> set (g_columns (groupStep ev gst)). columnOK k col)"
proof (cases "startsNewGroup (g_lastEnd gst) ev")
  case True
  have "\<forall>col \<in> set (placeEvent ev []). columnOK k col"
    using wf by (simp add: placeEvent_def columnOK_single)
  with True fl cs show ?thesis
    by (simp add: groupStep_def Let_def)
next
  case False
  from cs wf bf have "\<forall>col \<in> set (placeEvent ev (g_columns gst)). columnOK k col"
    by (rule placeEvent_OK)
  with False fl show ?thesis
    by (simp add: groupStep_def Let_def)
qed

lemma groupStep_columns_subset:
  "set (concat (g_columns (groupStep ev gst))) \<subseteq> insert ev (set (concat (g_columns gst)))"
proof (cases "startsNewGroup (g_lastEnd gst) ev")
  case True
  have "set (concat (placeEvent ev [])) = {ev}"
    by (simp only: set_placeEvent) simp
  with True show ?thesis
    by (simp add: groupStep_def Let_def)
next
  case False
  have "set (concat (placeEvent ev (g_columns gst))) = insert ev (set (concat (g_columns gst)))"
    by (rule set_placeEvent)
  with False show ?thesis
    by (simp add: groupStep_def Let_def)
qed

lemma fold_groupStep_OK:
  assumes "\<forall>cols \<in> set (g_flushed gst). \<forall>col \<in> set cols. columnOK k col"
    and "\<forall>col \<in> set (g_columns gst). columnOK k col"
    and "\<forall>x \<in> set evs. regularAs k x"
    and "sorted_wrt sortsBefore evs"
    and "\<forall>a \<in> set (concat (g_columns gst)). \<forall>x \<in> set evs. sortsBefore a x"
  shows "(\<forall>cols \<in> set (g_flushed (fold groupStep evs gst)). \<forall>col \<in> set cols. columnOK k col)
       \<and> (\<forall>col \<in> set (g_columns (fold groupStep evs gst)). columnOK k col)"
  using assms
proof (induction evs arbitrary: gst)
  case Nil
  then show ?case by simp
next
  case (Cons ev evs)
  from Cons.prems(3) have wf: "regularAs k ev" and wfs: "\<forall>x \<in> set evs. regularAs k x"
    by simp_all
  from Cons.prems(4) have later: "\<forall>x \<in> set evs. sortsBefore ev x"
    and srt: "sorted_wrt sortsBefore evs"
    by simp_all
  from Cons.prems(5) have bf: "\<forall>col \<in> set (g_columns gst). \<forall>a \<in> set col. sortsBefore a ev"
    by simp
  from groupStep_OK [OF Cons.prems(1,2) wf bf]
  have fl': "\<forall>cols \<in> set (g_flushed (groupStep ev gst)). \<forall>col \<in> set cols. columnOK k col"
    and cs': "\<forall>col \<in> set (g_columns (groupStep ev gst)). columnOK k col"
    by simp_all
  have bf': "\<forall>a \<in> set (concat (g_columns (groupStep ev gst))). \<forall>x \<in> set evs. sortsBefore a x"
  proof
    fix a assume "a \<in> set (concat (g_columns (groupStep ev gst)))"
    with groupStep_columns_subset [of ev gst]
    have "a = ev \<or> a \<in> set (concat (g_columns gst))" by blast
    then show "\<forall>x \<in> set evs. sortsBefore a x"
    proof
      assume "a = ev"
      with later show ?thesis by simp
    next
      assume "a \<in> set (concat (g_columns gst))"
      with Cons.prems(5) show ?thesis by auto
    qed
  qed
  from Cons.IH [OF fl' cs' wfs srt bf'] show ?case by simp
qed

lemma overlapGroups_OK:
  assumes "\<forall>ev \<in> set evs. regularAs k ev"
  shows "\<forall>cols \<in> set (overlapGroups evs). \<forall>col \<in> set cols. columnOK k col"
proof -
  let ?g0 = "\<lparr>g_lastEnd = None, g_columns = [], g_flushed = []\<rparr>"
  let ?es = "sortEvents (withIndex evs)"
  from assms have wf: "\<forall>x \<in> set (withIndex evs). regularAs k x"
    by (rule regular_withIndex)
  then have wfs: "\<forall>x \<in> set ?es. regularAs k x" by (simp only: set_sortEvents)
  from wf have srt: "sorted_wrt sortsBefore ?es" by (rule sorted_sortEvents)
  have "(\<forall>cols \<in> set (g_flushed (fold groupStep ?es ?g0)). \<forall>col \<in> set cols. columnOK k col)
       \<and> (\<forall>col \<in> set (g_columns (fold groupStep ?es ?g0)). columnOK k col)"
    using wfs srt by (intro fold_groupStep_OK) simp_all
  then show ?thesis
    by (simp add: overlapGroups_def Let_def)
qed

lemma hasCollision_regular:
  assumes "regularAs k a" and "regularAs k b"
  shows "hasCollision a b = rangesCollide a b"
proof -
  from regular_end [OF assms(1)] obtain ea where ea: "end' a = Some ea"
    and ka: "isDateObject (start a) = k" "isDateObject ea = k" by blast
  from regular_end [OF assms(2)] obtain eb where eb: "end' b = Some eb"
    and kb: "isDateObject (start b) = k" "isDateObject eb = k" by blast
  show ?thesis
    by (auto simp: hasCollision_def rangesCollide_def js_lt_Some ea eb ka kb)
qed

text \<open>
  Where the loop is right. When every event has start \<open>\<le>\<close> end and all values are held the
  same way (all \<open>Date\<close> objects, or all strings), no two events of a column of an overlap
  group have colliding time ranges, whatever their positions in the column.
\<close>

lemma same_values_no_collision_in_column:
  assumes "\<forall>ev \<in> set evs. wellFormed ev \<and> heldAs asDate ev"
  shows "\<forall>cols \<in> set (overlapGroups evs). \<forall>col \<in> set cols.
           \<forall>i j. i < j \<and> j < length col \<longrightarrow> \<not> rangesCollide (col ! i) (col ! j)"
proof (intro ballI allI impI)
  fix cols col i j
  assume "cols \<in> set (overlapGroups evs)" and "col \<in> set cols"
    and ij: "i < j \<and> j < length col"
  from assms have "\<forall>ev \<in> set evs. regularAs asDate ev" by (simp add: regularAs_def)
  from overlapGroups_OK [OF this] \<open>cols \<in> set (overlapGroups evs)\<close> \<open>col \<in> set cols\<close>
  have ok: "columnOK asDate col" by blast
  then have "sorted_wrt (\<lambda>a b. \<not> hasCollision a b) col"
    by (simp add: columnOK_def)
  with ij have free: "\<not> hasCollision (col ! i) (col ! j)"
    by (simp add: sorted_wrt_iff_nth_less)
  from ok ij have "regularAs asDate (col ! i)" and "regularAs asDate (col ! j)"
    by (simp_all add: columnOK_def)
  from hasCollision_regular [OF this] free
  show "\<not> rangesCollide (col ! i) (col ! j)" by simp
qed

subsection \<open>Date objects next to strings\<close>

text \<open>
  Claim C1 says that for every list of events with start \<open>\<le>\<close> end, \<open>populateEvents\<close> never
  places two events that satisfy \<open>a.end > b.start && a.start < b.end\<close> in the same column
  of an overlap group. The code breaks this on the day the timeline hands it when pieces
  of multi-day events (\<open>Date\<close> objects) meet a single-day event (strings): every comparison
  between a \<open>Date\<close> object and a string is false, so the night call is taken not to collide
  with the last piece, the group is not closed, and the first piece, tested against the
  night call only, joins the same column. The three events, each with start \<open>\<le>\<close> end, end
  in one column of one group, at \<open>left = 0\<close> and the full usable width; the two pieces
  collide by the source's own test, and the time ranges of all three overlap. (The
  comparator orders these three events consistently, the night call after the last piece
  and before the first piece by duration, the two pieces by start, so the sorted order
  does not depend on the sorting algorithm.)
\<close>

theorem C1_mixed_values_share_column:
  "(wellFormed lastPiece \<and> wellFormed nightCall \<and> wellFormed firstPiece)
   \<and> overlapGroups [lastPiece, nightCall, firstPiece] = [nightColumns]
   \<and> populateEvents 375 [lastPiece, nightCall, firstPiece] sampleOptions =
       packOverlappingEventGroup 375 nightColumns [] sampleOptions
   \<and> length nightColumns = 1 \<and> length (nightColumns ! 0) = 3
   \<and> hasCollision (nightColumns ! 0 ! 0) (nightColumns ! 0 ! 2)
   \<and> rangesCollide (nightColumns ! 0 ! 0) (nightColumns ! 0 ! 1)
   \<and> rangesCollide (nightColumns ! 0 ! 1) (nightColumns ! 0 ! 2)
   \<and> map left (populateEvents 375 [lastPiece, nightCall, firstPiece] sampleOptions) = [0, 0, 0]
   \<and> map width (populateEvents 375 [lastPiece, nightCall, firstPiece] sampleOptions)
       = [300, 300, 300]"
proof -
  have wf: "wellFormed lastPiece" "wellFormed nightCall" "wellFormed firstPiece"
    by (simp_all add: wellFormed_def lastPiece_def nightCall_def firstPiece_def)
  have run: "populateEvents 375 [lastPiece, nightCall, firstPiece] sampleOptions =
       packOverlappingEventGroup 375 nightColumns [] sampleOptions"
    by (simp add: populateEvents_groups night_groups)
  have len: "length nightColumns = 1" "length (nightColumns ! 0) = 3"
    by (simp_all add: nightColumns_def)
  have c02: "hasCollision (nightColumns ! 0 ! 0) (nightColumns ! 0 ! 2)"
    by (simp add: nightColumns_def hasCollision_def)
  have r01: "rangesCollide (nightColumns ! 0 ! 0) (nightColumns ! 0 ! 1)"
    by (simp add: nightColumns_def rangesCollide_def)
  have r12: "rangesCollide (nightColumns ! 0 ! 1) (nightColumns ! 0 ! 2)"
    by (simp add: nightColumns_def rangesCollide_def)
  have geo: "map left (packOverlappingEventGroup 375 nightColumns [] sampleOptions) = [0, 0, 0]"
    "map width (packOverlappingEventGroup 375 nightColumns [] sampleOptions) = [300, 300, 300]"
    by (simp_all add: pack_eval nightColumns_def sampleOptions_def)
  from wf night_groups run len c02 r01 r12 geo show ?thesis
    by (simp only: simp_thms)
qed

section \<open>Stacking order\<close>

lemma infos_duration:
  "\<forall>info \<in> set (eventsInGroup c cols opts).
     info_duration info = getEventDuration (info_event info)"
  by (auto simp: eventsInGroup_def Let_def)

lemma fold_containmentStep:
  "fold (containmentStep eventInfo k) xs z =
   z + sum_list (map (\<lambda>other. containmentStep eventInfo k other 0) xs)"
proof (induction xs arbitrary: z)
  case Nil
  show ?case by simp
next
  case (Cons x xs)
  have "containmentStep eventInfo k x z = z + containmentStep eventInfo k x 0"
    by (simp add: containmentStep_def split: prod.splits)
  then show ?case by (simp add: Cons.IH)
qed

lemma sum_list_enumerate:
  "sum_list (map g (enumerate 0 xs)) = (\<Sum>j = 0..<length xs. g (j, xs ! j))"
proof -
  have "sum_list (map g (enumerate 0 xs)) =
        (\<Sum>j = 0..<length (map g (enumerate 0 xs)). map g (enumerate 0 xs) ! j)"
    by (rule sum_list_sum_nth)
  also have "\<dots> = (\<Sum>j = 0..<length xs. g (j, xs ! j))"
    by (rule sum.cong) (simp_all add: nth_enumerate_eq)
  finally show ?thesis .
qed

lemma computeZIndex_sum:
  assumes "k < length infos"
    and "\<forall>info \<in> set infos. info_duration info = getEventDuration (info_event info)"
  shows "computeZIndex infos k (infos ! k) =
     (\<Sum>j = 0..<length infos. containmentPoints (map info_event infos) k j)
     + (if num_lt (getEventDuration (map info_event infos ! k)) (Some (60 * 60 * 1000))
        then 5 else 0)"
proof -
  have dk: "info_duration (infos ! k) = getEventDuration (info_event (infos ! k))"
    using assms by simp
  have "(\<Sum>j = 0..<length infos. containmentStep (infos ! k) k (j, infos ! j) 0) =
        (\<Sum>j = 0..<length infos. containmentPoints (map info_event infos) k j)"
  proof (rule sum.cong)
    fix j assume "j \<in> {0..<length infos}"
    then have j: "j < length infos" by simp
    then have "info_duration (infos ! j) = getEventDuration (info_event (infos ! j))"
      using assms(2) by simp
    with j assms(1) dk
    show "containmentStep (infos ! k) k (j, infos ! j) 0 =
          containmentPoints (map info_event infos) k j"
      by (simp add: containmentStep_def containmentPoints_def)
  qed simp
  with assms(1) dk show ?thesis
    by (simp add: computeZIndex_def Let_def fold_containmentStep sum_list_enumerate)
qed

lemma pack_zIndex:
  assumes "k < length (concat cols)"
  shows "zIndex (packOverlappingEventGroup c cols [] opts ! k) =
     (\<Sum>j = 0..<length (concat cols). containmentPoints (concat cols) k j)
     + (if num_lt (getEventDuration (concat cols ! k)) (Some (60 * 60 * 1000)) then 5 else 0)"
proof -
  from assms have k: "k < length (eventsInGroup c cols opts)" by (simp add: infos_length)
  from computeZIndex_sum [OF k infos_duration]
  show ?thesis
    by (simp add: pack_nth [OF assms] infos_events infos_length)
qed

lemma js_le_iff:
  "js_le x y \<longleftrightarrow>
     (\<exists>a b. x = Some a \<and> y = Some b \<and> isDateObject a = isDateObject b
            \<and> instantOf a \<le> instantOf b)"
  by (cases x; cases y) (simp_all add: js_le_Some)

lemma timeValue_eqI:
  assumes "isDateObject a = isDateObject b" and "instantOf a = instantOf b"
  shows "a = b"
  using assms by (cases a; cases b) simp_all

text \<open>
  The source's containment test is containment of the time ranges between events whose
  values are held the same way, and false between a \<open>Date\<close> object and a string.
\<close>

lemma isEventContained_iff:
  "isEventContained a b \<longleftrightarrow> sameRepresentation a b \<and> rangeContained a b"
  by (cases "end' a"; cases "end' b")
     (auto simp: isEventContained_def sameRepresentation_def rangeContained_def js_le_Some)

lemma sameRepresentation_sym:
  "sameRepresentation a b \<Longrightarrow> sameRepresentation b a"
  by (cases "end' a"; cases "end' b") (simp_all add: sameRepresentation_def)

lemma isEventContained_trans:
  assumes "isEventContained a b" and "isEventContained b d"
  shows "isEventContained a d"
  using assms
  by (auto simp: isEventContained_def js_le_iff)

lemma contained_duration:
  assumes "isEventContained a b"
  shows "num_le (getEventDuration a) (getEventDuration b)"
  using assms
  by (auto simp: isEventContained_def getEventDuration_def js_le_iff num_le_def)

lemma containmentPoints_mono:
  assumes "k \<noteq> l" and "isEventContained (es ! k) (es ! l)"
    and "\<not> isEventContained (es ! l) (es ! k)"
  shows "containmentPoints es l j + (if j = l then 10 else 0) \<le> containmentPoints es k j"
proof (cases "j = l")
  case True
  with assms(1,2) contained_duration [OF assms(2)] show ?thesis
    by (simp add: containmentPoints_def)
next
  case False
  note jl = this
  show ?thesis
  proof (cases "j = k")
    case True
    with assms(3) jl show ?thesis by (simp add: containmentPoints_def)
  next
    case False
    show ?thesis
    proof (cases "isEventContained (es ! l) (es ! j)")
      case True
      with assms(2) have "isEventContained (es ! k) (es ! j)"
        by (rule isEventContained_trans)
      with contained_duration [OF this] False jl show ?thesis
        by (simp add: containmentPoints_def)
    next
      case False
      with jl show ?thesis by (simp add: containmentPoints_def)
    qed
  qed
qed

lemma containment_sum_gap:
  assumes "l < n" and "k \<noteq> l" and "isEventContained (es ! k) (es ! l)"
    and "\<not> isEventContained (es ! l) (es ! k)"
  shows "(\<Sum>j = 0..<n. containmentPoints es l j) + 10 \<le> (\<Sum>j = 0..<n. containmentPoints es k j)"
proof -
  have "(\<Sum>j = 0..<n. containmentPoints es l j) + (\<Sum>j = 0..<n. if j = l then 10 else 0) =
        (\<Sum>j = 0..<n. containmentPoints es l j + (if j = l then 10 else 0))"
    by (simp add: sum.distrib)
  also have "\<dots> \<le> (\<Sum>j = 0..<n. containmentPoints es k j)"
    by (rule sum_mono) (rule containmentPoints_mono [OF assms(2-4)])
  finally have "(\<Sum>j = 0..<n. containmentPoints es l j)
      + (\<Sum>j = 0..<n. if j = l then (10 :: int) else 0)
      \<le> (\<Sum>j = 0..<n. containmentPoints es k j)" .
  moreover have "(\<Sum>j = 0..<n. if j = l then (10 :: int) else 0) = 10"
    using assms(1) by simp
  ultimately show ?thesis by simp
qed

lemma containment_sum_ge:
  assumes "l < n" and "k \<noteq> l" and "isEventContained (es ! k) (es ! l)"
  shows "10 \<le> (\<Sum>j = 0..<n. containmentPoints es k j)"
proof -
  have "(\<Sum>j = 0..<n. if j = l then (10 :: int) else 0) \<le> (\<Sum>j = 0..<n. containmentPoints es k j)"
  proof (rule sum_mono)
    fix j
    show "(if j = l then 10 else 0) \<le> containmentPoints es k j"
      using assms(2,3) contained_duration [OF assms(3)]
      by (simp add: containmentPoints_def)
  qed
  moreover have "(\<Sum>j = 0..<n. if j = l then (10 :: int) else 0) = 10"
    using assms(1) by simp
  ultimately show ?thesis by simp
qed

lemma contained_both_same:
  assumes "isEventContained a b" and "isEventContained b a"
  shows "start a = start b \<and> end' a = end' b"
proof -
  from assms have "isDateObject (start a) = isDateObject (start b)"
    and "instantOf (start a) = instantOf (start b)"
    by (auto simp: isEventContained_def js_le_iff)
  then have s: "start a = start b" by (rule timeValue_eqI)
  from assms obtain ea eb where e: "end' a = Some ea" "end' b = Some eb"
    and "isDateObject ea = isDateObject eb" and "instantOf ea = instantOf eb"
    by (auto simp: isEventContained_def js_le_iff)
  then have "ea = eb" by (intro timeValue_eqI)
  with s e show ?thesis by simp
qed

lemma getEventDuration_same:
  assumes "start a = start b" and "end' a = end' b"
  shows "getEventDuration a = getEventDuration b"
  using assms by (cases "end' b") (simp_all add: getEventDuration_def)

lemma containment_sum_same:
  assumes "k < n" and "l < n" and "k \<noteq> l"
    and "isEventContained (es ! k) (es ! l)" and "isEventContained (es ! l) (es ! k)"
  shows "(\<Sum>j = 0..<n. containmentPoints es k j) = (\<Sum>j = 0..<n. containmentPoints es l j)"
proof -
  from contained_both_same [OF assms(4,5)]
  have same: "start (es ! k) = start (es ! l)" "end' (es ! k) = end' (es ! l)" by simp_all
  have dk: "num_le (getEventDuration (es ! k)) (getEventDuration (es ! l))"
    using assms(4) by (rule contained_duration)
  have dl: "num_le (getEventDuration (es ! l)) (getEventDuration (es ! k))"
    using assms(5) by (rule contained_duration)
  have deq: "getEventDuration (es ! k) = getEventDuration (es ! l)"
    using same by (rule getEventDuration_same)
  have ceq: "isEventContained (es ! k) x = isEventContained (es ! l) x" for x :: PartialPackedEvent
    by (simp add: isEventContained_def same)
  have pt: "containmentPoints es k j =
      containmentPoints es l j + (if j = l then 10 else 0) - (if j = k then 10 else 0)" for j
  proof (cases "j = l")
    case True
    with assms(3,4) dk show ?thesis by (simp add: containmentPoints_def)
  next
    case False
    note jl = this
    show ?thesis
    proof (cases "j = k")
      case True
      with assms(3,5) dl show ?thesis by (simp add: containmentPoints_def)
    next
      case False
      with jl show ?thesis by (simp add: containmentPoints_def deq ceq)
    qed
  qed
  have "(\<Sum>j = 0..<n. containmentPoints es k j) =
        (\<Sum>j = 0..<n. containmentPoints es l j + (if j = l then 10 else 0)
                        - (if j = k then 10 else 0))"
    by (rule sum.cong) (simp_all only: pt)
  also have "\<dots> = (\<Sum>j = 0..<n. containmentPoints es l j)
      + (\<Sum>j = 0..<n. if j = l then (10 :: int) else 0)
      - (\<Sum>j = 0..<n. if j = k then (10 :: int) else 0)"
    by (simp only: sum_subtractf sum.distrib)
  also have "\<dots> = (\<Sum>j = 0..<n. containmentPoints es l j)"
    using assms(1,2) by simp
  finally show ?thesis .
qed

lemma pack_sameRepresentation:
  assumes "k < length (concat cols)" and "l < length (concat cols)"
  shows "sameRepresentation (packOverlappingEventGroup c cols [] opts ! k)
           (packOverlappingEventGroup c cols [] opts ! l)
         = sameRepresentation (concat cols ! k) (concat cols ! l)"
  by (simp add: sameRepresentation_def pack_nth_fields [OF assms(1)] pack_nth_fields [OF assms(2)])

lemma pack_rangeContained:
  assumes "k < length (concat cols)" and "l < length (concat cols)"
  shows "rangeContained (packOverlappingEventGroup c cols [] opts ! k)
           (packOverlappingEventGroup c cols [] opts ! l)
         = rangeContained (concat cols ! k) (concat cols ! l)"
  by (simp add: rangeContained_def pack_nth_fields [OF assms(1)] pack_nth_fields [OF assms(2)])

lemma pack_getEventDuration:
  assumes "k < length (concat cols)"
  shows "getEventDuration (packOverlappingEventGroup c cols [] opts ! k)
         = getEventDuration (concat cols ! k)"
  by (cases "end' (concat cols ! k)")
     (simp_all add: getEventDuration_def pack_nth_fields [OF assms])

subsection \<open>Identical ranges\<close>

text \<open>
  Claim C4, as stated, fails: two events with the same range contain each other, and the
  second pass gives both the same \<open>zIndex\<close>. Two copies of A (09:00 to 10:00, as strings)
  are packed in one group; the range of the first is contained in the range of the
  second, the first is not longer, and both get \<open>zIndex\<close> 10.
\<close>

theorem C4_counterexample:
  "overlapGroups [morningA, morningA] = [twinColumns]
   \<and> populateEvents 375 [morningA, morningA] sampleOptions =
       packOverlappingEventGroup 375 twinColumns [] sampleOptions
   \<and> isEventContained (packOverlappingEventGroup 375 twinColumns [] sampleOptions ! 0)
        (packOverlappingEventGroup 375 twinColumns [] sampleOptions ! 1)
   \<and> rangeContained (packOverlappingEventGroup 375 twinColumns [] sampleOptions ! 0)
        (packOverlappingEventGroup 375 twinColumns [] sampleOptions ! 1)
   \<and> num_le (getEventDuration (packOverlappingEventGroup 375 twinColumns [] sampleOptions ! 0))
        (getEventDuration (packOverlappingEventGroup 375 twinColumns [] sampleOptions ! 1))
   \<and> zIndex (packOverlappingEventGroup 375 twinColumns [] sampleOptions ! 0) = 10
   \<and> zIndex (packOverlappingEventGroup 375 twinColumns [] sampleOptions ! 1) = 10
   \<and> \<not> zIndex (packOverlappingEventGroup 375 twinColumns [] sampleOptions ! 1)
        < zIndex (packOverlappingEventGroup 375 twinColumns [] sampleOptions ! 0)"
proof -
  have "populateEvents 375 [morningA, morningA] sampleOptions =
       packOverlappingEventGroup 375 twinColumns [] sampleOptions"
    by (simp add: populateEvents_groups twin_groups)
  with twin_groups show ?thesis
    by (simp add: twin_pack isEventContained_def rangeContained_def getEventDuration_def
        num_le_def)
qed

subsection \<open>A string event inside a piece of a multi-day event\<close>

text \<open>
  Between a \<open>Date\<close> object and a string the test \<open>isEventContained\<close> is false, whatever the
  two time ranges are. The late call (10:00 to 11:30, strings) lies inside the first piece
  (00:45 to 23:59:59.999, \<open>Date\<close> objects) and is shorter; the loop puts both in one column
  of one group, and the second pass leaves both at \<open>zIndex\<close> 0.
\<close>

lemma mixed_values_no_containment_points:
  "overlapGroups [firstPiece, lateCall] = [lateColumns]
   \<and> populateEvents 375 [firstPiece, lateCall] sampleOptions =
       packOverlappingEventGroup 375 lateColumns [] sampleOptions
   \<and> rangeContained (packOverlappingEventGroup 375 lateColumns [] sampleOptions ! 0)
        (packOverlappingEventGroup 375 lateColumns [] sampleOptions ! 1)
   \<and> num_le (getEventDuration (packOverlappingEventGroup 375 lateColumns [] sampleOptions ! 0))
        (getEventDuration (packOverlappingEventGroup 375 lateColumns [] sampleOptions ! 1))
   \<and> \<not> sameRepresentation (packOverlappingEventGroup 375 lateColumns [] sampleOptions ! 0)
        (packOverlappingEventGroup 375 lateColumns [] sampleOptions ! 1)
   \<and> \<not> isEventContained (packOverlappingEventGroup 375 lateColumns [] sampleOptions ! 0)
        (packOverlappingEventGroup 375 lateColumns [] sampleOptions ! 1)
   \<and> map zIndex (packOverlappingEventGroup 375 lateColumns [] sampleOptions) = [0, 0]"
proof -
  let ?out = "packOverlappingEventGroup 375 lateColumns [] sampleOptions"
  have run: "populateEvents 375 [firstPiece, lateCall] sampleOptions = ?out"
    by (simp add: populateEvents_groups late_groups)
  have k: "0 < length (concat lateColumns)" and l: "1 < length (concat lateColumns)"
    by (simp_all add: lateColumns_def)
  have r: "rangeContained (?out ! 0) (?out ! 1)"
    unfolding pack_rangeContained [OF k l]
    by (simp add: lateColumns_def rangeContained_def)
  have d: "num_le (getEventDuration (?out ! 0)) (getEventDuration (?out ! 1))"
    unfolding pack_getEventDuration [OF k] pack_getEventDuration [OF l]
    by (simp add: lateColumns_def getEventDuration_def num_le_def)
  have s: "\<not> sameRepresentation (?out ! 0) (?out ! 1)"
    unfolding pack_sameRepresentation [OF k l]
    by (simp add: lateColumns_def sameRepresentation_def)
  then have c: "\<not> isEventContained (?out ! 0) (?out ! 1)"
    by (simp add: isEventContained_iff)
  from late_groups run r d s c late_zIndex show ?thesis
    by (intro conjI)
qed

subsection \<open>Stacking of contained events\<close>

text \<open>
  Claim C4, amended. Let A and B be two events of one overlap group whose values are held
  in the same representation (the starts both \<open>Date\<close> objects or both strings, and the ends
  too), such that the range of A is contained in the range of B (\<open>A.start >= B.start\<close> and
  \<open>A.end <= B.end\<close>) and A is not longer than B. If the range of B is not contained in the
  range of A (the two ranges differ), the \<open>zIndex\<close> of A is at least 10 above the \<open>zIndex\<close>
  of B, hence strictly greater; if it is (the two ranges are the same), the two values are
  equal. If A lasts less than an hour, its \<open>zIndex\<close> is at least 15 (10 for the
  containment, 5 for the duration). The theorem is about the geometry of any columns, as
  \<open>packOverlappingEventGroup\<close> computes it, so it holds of every group that
  \<open>populateEvents\<close> flushes.
\<close>

theorem C4_containment_stacking:
  assumes "k < length (packOverlappingEventGroup c cols [] opts)"
    and "l < length (packOverlappingEventGroup c cols [] opts)"
    and "k \<noteq> l"
    and "sameRepresentation (packOverlappingEventGroup c cols [] opts ! k)
           (packOverlappingEventGroup c cols [] opts ! l)"
    and "rangeContained (packOverlappingEventGroup c cols [] opts ! k)
           (packOverlappingEventGroup c cols [] opts ! l)"
    and "num_le (getEventDuration (packOverlappingEventGroup c cols [] opts ! k))
           (getEventDuration (packOverlappingEventGroup c cols [] opts ! l))"
  shows "(\<not> rangeContained (packOverlappingEventGroup c cols [] opts ! l)
              (packOverlappingEventGroup c cols [] opts ! k) \<longrightarrow>
            zIndex (packOverlappingEventGroup c cols [] opts ! l) + 10
              \<le> zIndex (packOverlappingEventGroup c cols [] opts ! k))
       \<and> (rangeContained (packOverlappingEventGroup c cols [] opts ! l)
              (packOverlappingEventGroup c cols [] opts ! k) \<longrightarrow>
            zIndex (packOverlappingEventGroup c cols [] opts ! l)
              = zIndex (packOverlappingEventGroup c cols [] opts ! k))
       \<and> (num_lt (getEventDuration (packOverlappingEventGroup c cols [] opts ! k))
                 (Some (60 * 60 * 1000)) \<longrightarrow>
            15 \<le> zIndex (packOverlappingEventGroup c cols [] opts ! k))"
proof -
  let ?out = "packOverlappingEventGroup c cols [] opts"
  let ?es = "concat cols"
  let ?n = "length ?es"
  from assms(1,2) have k: "k < ?n" and l: "l < ?n" by (simp_all add: pack_length)
  from assms(4) have skl: "sameRepresentation (?es ! k) (?es ! l)"
    by (simp only: pack_sameRepresentation [OF k l])
  then have slk: "sameRepresentation (?es ! l) (?es ! k)"
    by (rule sameRepresentation_sym)
  from assms(5) have rkl: "rangeContained (?es ! k) (?es ! l)"
    by (simp only: pack_rangeContained [OF k l])
  from skl rkl have ckl: "isEventContained (?es ! k) (?es ! l)"
    by (simp only: isEventContained_iff simp_thms)
  have boost: "num_lt (getEventDuration (?es ! l)) (Some (60 * 60 * 1000)) \<Longrightarrow>
               num_lt (getEventDuration (?es ! k)) (Some (60 * 60 * 1000))"
    using contained_duration [OF ckl]
    by (auto simp: num_lt_def num_le_def split: option.splits)
  have part1: "zIndex (?out ! l) + 10 \<le> zIndex (?out ! k)"
    if "\<not> rangeContained (?out ! l) (?out ! k)"
  proof -
    from that have "\<not> rangeContained (?es ! l) (?es ! k)"
      by (simp add: pack_rangeContained [OF l k])
    then have "\<not> isEventContained (?es ! l) (?es ! k)"
      unfolding isEventContained_iff by simp
    from containment_sum_gap [OF l assms(3) ckl this] boost
    show ?thesis
      by (simp add: pack_zIndex [OF k] pack_zIndex [OF l])
  qed
  have part2: "zIndex (?out ! l) = zIndex (?out ! k)"
    if "rangeContained (?out ! l) (?out ! k)"
  proof -
    from that have "rangeContained (?es ! l) (?es ! k)"
      by (simp only: pack_rangeContained [OF l k])
    with slk have clk: "isEventContained (?es ! l) (?es ! k)"
      by (simp only: isEventContained_iff simp_thms)
    from contained_both_same [OF ckl clk]
    have "getEventDuration (?es ! k) = getEventDuration (?es ! l)"
      by (intro getEventDuration_same) simp_all
    with containment_sum_same [OF k l assms(3) ckl clk]
    show ?thesis
      by (simp add: pack_zIndex [OF k] pack_zIndex [OF l])
  qed
  have part3: "15 \<le> zIndex (?out ! k)"
    if "num_lt (getEventDuration (?out ! k)) (Some (60 * 60 * 1000))"
  proof -
    from that have "num_lt (getEventDuration (?es ! k)) (Some (60 * 60 * 1000))"
      by (simp only: pack_getEventDuration [OF k])
    with containment_sum_ge [OF l assms(3) ckl]
    show ?thesis
      by (simp add: pack_zIndex [OF k])
  qed
  from part1 part2 part3 show ?thesis by blast
qed

text \<open>
  Scenario 2 of the spec inside the busy group: the standup (index 1) lies in the
  workshop (index 0) and lasts 15 minutes.
\<close>

theorem C4_containment_stacking_witness:
  "((1 :: nat) < length (packOverlappingEventGroup 375 busyColumns [] sampleOptions)
    \<and> (0 :: nat) < length (packOverlappingEventGroup 375 busyColumns [] sampleOptions)
    \<and> (1 :: nat) \<noteq> 0
    \<and> sameRepresentation (packOverlappingEventGroup 375 busyColumns [] sampleOptions ! 1)
          (packOverlappingEventGroup 375 busyColumns [] sampleOptions ! 0)
    \<and> rangeContained (packOverlappingEventGroup 375 busyColumns [] sampleOptions ! 1)
          (packOverlappingEventGroup 375 busyColumns [] sampleOptions ! 0)
    \<and> num_le (getEventDuration (packOverlappingEventGroup 375 busyColumns [] sampleOptions ! 1))
          (getEventDuration (packOverlappingEventGroup 375 busyColumns [] sampleOptions ! 0))
    \<and> \<not> rangeContained (packOverlappingEventGroup 375 busyColumns [] sampleOptions ! 0)
          (packOverlappingEventGroup 375 busyColumns [] sampleOptions ! 1)
    \<and> num_lt (getEventDuration (packOverlappingEventGroup 375 busyColumns [] sampleOptions ! 1))
          (Some (60 * 60 * 1000)))
   \<and> zIndex (packOverlappingEventGroup 375 busyColumns [] sampleOptions ! 0) + 10
       \<le> zIndex (packOverlappingEventGroup 375 busyColumns [] sampleOptions ! 1)
   \<and> 15 \<le> zIndex (packOverlappingEventGroup 375 busyColumns [] sampleOptions ! 1)
   \<and> zIndex (packOverlappingEventGroup 375 busyColumns [] sampleOptions ! 0) = 0
   \<and> zIndex (packOverlappingEventGroup 375 busyColumns [] sampleOptions ! 1) = 15"
proof -
  let ?out = "packOverlappingEventGroup 375 busyColumns [] sampleOptions"
  have h1: "(1 :: nat) < length ?out" and h2: "(0 :: nat) < length ?out"
    by (simp_all add: busy_pack)
  have h3: "(1 :: nat) \<noteq> 0" by simp
  have h4: "sameRepresentation (?out ! 1) (?out ! 0)"
    by (simp add: busy_pack sameRepresentation_def)
  have h5: "rangeContained (?out ! 1) (?out ! 0)"
    by (simp add: busy_pack rangeContained_def)
  have h6: "num_le (getEventDuration (?out ! 1)) (getEventDuration (?out ! 0))"
    by (simp add: busy_pack getEventDuration_def num_le_def)
  have h7: "\<not> rangeContained (?out ! 0) (?out ! 1)"
    by (simp add: busy_pack rangeContained_def)
  have h8: "num_lt (getEventDuration (?out ! 1)) (Some (60 * 60 * 1000))"
    by (simp add: busy_pack getEventDuration_def num_lt_def)
  note inst = C4_containment_stacking [OF h1 h2 h3 h4 h5 h6]
  from inst h7 have a: "zIndex (?out ! 0) + 10 \<le> zIndex (?out ! 1)" by blast
  from inst h8 have b: "15 \<le> zIndex (?out ! 1)" by blast
  have z: "zIndex (?out ! 0) = 0" "zIndex (?out ! 1) = 15"
    by (simp_all add: busy_pack)
  from h1 h2 h3 h4 h5 h6 h7 h8 a b z show ?thesis by (intro conjI)
qed

section \<open>Left and width\<close>












section \<open>Unavailable hours: proofs\<close>

lemma hoursToBlock_valid_iff:
  "fst (hoursToBlock options hours) \<noteq> None \<longleftrightarrow> validRange hours"
  by (auto simp: hoursToBlock_def validRange_def inRange_def Let_def)

lemma hoursToBlock_valid:
  assumes "validRange hours"
  shows "hoursToBlock options hours =
     (Some \<lparr>block_top =
              (if (case uh_dayEnd options of Some v \<Rightarrow> v | None \<Rightarrow> 24) - (case uh_dayStart options of Some v \<Rightarrow> v | None \<Rightarrow> 0) = 0 then None
               else Some (((max (hours_start hours) (case uh_dayStart options of Some v \<Rightarrow> v | None \<Rightarrow> 0) - (case uh_dayStart options of Some v \<Rightarrow> v | None \<Rightarrow> 0)) / ((case uh_dayEnd options of Some v \<Rightarrow> v | None \<Rightarrow> 24) - (case uh_dayStart options of Some v \<Rightarrow> v | None \<Rightarrow> 0)))
                          * (((case uh_dayEnd options of Some v \<Rightarrow> v | None \<Rightarrow> 24) - (case uh_dayStart options of Some v \<Rightarrow> v | None \<Rightarrow> 0)) * (case uh_hourBlockHeight options of Some v \<Rightarrow> v | None \<Rightarrow> 100)))),
            block_height = (min (hours_end hours) (case uh_dayEnd options of Some v \<Rightarrow> v | None \<Rightarrow> 24) - max (hours_start hours) (case uh_dayStart options of Some v \<Rightarrow> v | None \<Rightarrow> 0)) * (case uh_hourBlockHeight options of Some v \<Rightarrow> v | None \<Rightarrow> 100)\<rparr>,
      [])"
  using assms unfolding hoursToBlock_def HOUR_BLOCK_HEIGHT_def
  by (simp add: validRange_def inRange_def Let_def)

lemma hoursToBlock_invalid:
  assumes "\<not> validRange hours"
  shows "hoursToBlock options hours =
     (None, [if inRange (hours_start hours) 0 25 \<and> inRange (hours_end hours) 0 25
             then msgHoursOrder else msgHoursRange])"
  using assms by (auto simp: hoursToBlock_def validRange_def inRange_def Let_def)

lemma build_blocks:
  "fst (buildUnavailableHoursBlocks unavailableHours options) =
   map (\<lambda>hours. the (fst (hoursToBlock options hours))) (filter validRange unavailableHours)"
proof (induction unavailableHours)
  case Nil
  show ?case by (simp add: buildUnavailableHoursBlocks_def)
next
  case (Cons hours rest)
  then show ?case
    using hoursToBlock_valid_iff [of options hours]
    by (simp add: buildUnavailableHoursBlocks_def Let_def)
qed

lemma build_log:
  "snd (buildUnavailableHoursBlocks unavailableHours options) =
   map (\<lambda>hours. if inRange (hours_start hours) 0 25 \<and> inRange (hours_end hours) 0 25
                  then msgHoursOrder else msgHoursRange)
       (filter (\<lambda>hours. \<not> validRange hours) unavailableHours)"
proof (induction unavailableHours)
  case Nil
  show ?case by (simp add: buildUnavailableHoursBlocks_def)
next
  case (Cons hours rest)
  then show ?case
    by (cases "validRange hours")
       (simp_all add: buildUnavailableHoursBlocks_def Let_def hoursToBlock_valid
          hoursToBlock_invalid)
qed

lemma build_single:
  assumes "validRange hours"
  shows "fst (buildUnavailableHoursBlocks [hours] options) =
     [\<lparr>block_top =
         (if (case uh_dayEnd options of Some v \<Rightarrow> v | None \<Rightarrow> 24) - (case uh_dayStart options of Some v \<Rightarrow> v | None \<Rightarrow> 0) = 0 then None
          else Some (((max (hours_start hours) (case uh_dayStart options of Some v \<Rightarrow> v | None \<Rightarrow> 0) - (case uh_dayStart options of Some v \<Rightarrow> v | None \<Rightarrow> 0)) / ((case uh_dayEnd options of Some v \<Rightarrow> v | None \<Rightarrow> 24) - (case uh_dayStart options of Some v \<Rightarrow> v | None \<Rightarrow> 0)))
                     * (((case uh_dayEnd options of Some v \<Rightarrow> v | None \<Rightarrow> 24) - (case uh_dayStart options of Some v \<Rightarrow> v | None \<Rightarrow> 0)) * (case uh_hourBlockHeight options of Some v \<Rightarrow> v | None \<Rightarrow> 100)))),
       block_height = (min (hours_end hours) (case uh_dayEnd options of Some v \<Rightarrow> v | None \<Rightarrow> 24) - max (hours_start hours) (case uh_dayStart options of Some v \<Rightarrow> v | None \<Rightarrow> 0)) * (case uh_hourBlockHeight options of Some v \<Rightarrow> v | None \<Rightarrow> 100)\<rparr>]"
  by (simp add: build_blocks assms hoursToBlock_valid [OF assms])

subsection \<open>Invalid ranges are dropped, the others keep their order\<close>

text \<open>
  Claim C7. \<open>buildUnavailableHoursBlocks\<close> drops exactly the ranges whose start or end
  lies outside \<open>[0, 25)\<close> or whose start is not before the end: the blocks are those of
  the valid ranges, one for each, in the order of the input (nothing is sorted or merged).
  Each dropped range writes one diagnostic, and the function has a result for every
  input (nothing is thrown). The range \<open>{start: 23, end: 26}\<close> with \<open>dayEnd = 24\<close> is dropped
  with the out-of-range diagnostic.
\<close>

theorem C7_invalid_ranges_dropped:
  "fst (buildUnavailableHoursBlocks unavailableHours options) =
     map (\<lambda>hours. the (fst (hoursToBlock options hours)))
         (filter validRange unavailableHours)
   \<and> snd (buildUnavailableHoursBlocks unavailableHours options) =
     map (\<lambda>hours. if inRange (hours_start hours) 0 25 \<and> inRange (hours_end hours) 0 25
                    then msgHoursOrder else msgHoursRange)
         (filter (\<lambda>hours. \<not> validRange hours) unavailableHours)
   \<and> buildUnavailableHoursBlocks [\<lparr>hours_start = 23, hours_end = 26\<rparr>]
        (options\<lparr>uh_dayEnd := Some 24\<rparr>) = ([], [msgHoursRange])"
proof -
  have "\<not> validRange \<lparr>hours_start = 23, hours_end = 26\<rparr>"
    by (simp add: validRange_def)
  then have "buildUnavailableHoursBlocks [\<lparr>hours_start = 23, hours_end = 26\<rparr>]
        (options\<lparr>uh_dayEnd := Some 24\<rparr>) = ([], [msgHoursRange])"
    by (simp add: buildUnavailableHoursBlocks_def hoursToBlock_invalid inRange_def)
  with build_blocks [of unavailableHours options] build_log [of unavailableHours options]
  show ?thesis by (intro conjI)
qed

text \<open>
  Four ranges under the default options: the second is out of range, the third is
  inverted, the first and the last keep their order.
\<close>

theorem C7_invalid_ranges_dropped_witness:
  "buildUnavailableHoursBlocks sampleHours defaultHoursOptions =
     ([\<lparr>block_top = Some 100, block_height = 400\<rparr>,
       \<lparr>block_top = Some 900, block_height = 100\<rparr>],
      [msgHoursRange, msgHoursOrder])"
proof -
  have v: "filter validRange sampleHours =
      [\<lparr>hours_start = 1, hours_end = 5\<rparr>, \<lparr>hours_start = 9, hours_end = 10\<rparr>]"
    by (simp add: sampleHours_def validRange_def)
  have i: "filter (\<lambda>hours. \<not> validRange hours) sampleHours =
      [\<lparr>hours_start = 23, hours_end = 26\<rparr>, \<lparr>hours_start = 7, hours_end = 3\<rparr>]"
    by (simp add: sampleHours_def validRange_def)
  note inst = C7_invalid_ranges_dropped [of sampleHours defaultHoursOptions]
  from inst have blocks: "fst (buildUnavailableHoursBlocks sampleHours defaultHoursOptions) =
      [\<lparr>block_top = Some 100, block_height = 400\<rparr>,
       \<lparr>block_top = Some 900, block_height = 100\<rparr>]"
    by (simp add: v hoursToBlock_def inRange_def HOUR_BLOCK_HEIGHT_def
        defaultHoursOptions_def)
  from inst have logs: "snd (buildUnavailableHoursBlocks sampleHours defaultHoursOptions) =
      [msgHoursRange, msgHoursOrder]"
    by (simp add: i inRange_def)
  from blocks logs show ?thesis by (simp add: prod_eq_iff)
qed

subsection \<open>The block of a valid range\<close>

text \<open>
  Claim C8. For a valid range the block is
  \<open>top = ((max(start, dayStart) - dayStart) / (dayEnd - dayStart)) * totalDayHeight\<close>, with
  \<open>totalDayHeight = (dayEnd - dayStart) * hourBlockHeight\<close>, and
  \<open>height = (min(end, dayEnd) - max(start, dayStart)) * hourBlockHeight\<close>, where
  \<open>hourBlockHeight\<close>, \<open>dayStart\<close> and \<open>dayEnd\<close> are the caller's values, or 100, 0 and 24
  where the caller gives none. (When \<open>dayEnd = dayStart\<close> the quotient is a division by
  zero and \<open>top\<close> is no finite number.) The range \<open>{start: 1, end: 5}\<close> with
  \<open>dayStart = 0\<close>, \<open>dayEnd = 24\<close> and \<open>hourBlockHeight = 100\<close> yields
  \<open>{top: 100, height: 400}\<close>.
\<close>

theorem C8_block_geometry:
  "(validRange hours \<longrightarrow>
      fst (buildUnavailableHoursBlocks [hours] options) =
        [\<lparr>block_top =
            (if (case uh_dayEnd options of Some v \<Rightarrow> v | None \<Rightarrow> 24)
                - (case uh_dayStart options of Some v \<Rightarrow> v | None \<Rightarrow> 0) = 0
             then None
             else Some (((max (hours_start hours)
                            (case uh_dayStart options of Some v \<Rightarrow> v | None \<Rightarrow> 0)
                          - (case uh_dayStart options of Some v \<Rightarrow> v | None \<Rightarrow> 0))
                         / ((case uh_dayEnd options of Some v \<Rightarrow> v | None \<Rightarrow> 24)
                            - (case uh_dayStart options of Some v \<Rightarrow> v | None \<Rightarrow> 0)))
                        * (((case uh_dayEnd options of Some v \<Rightarrow> v | None \<Rightarrow> 24)
                            - (case uh_dayStart options of Some v \<Rightarrow> v | None \<Rightarrow> 0))
                           * (case uh_hourBlockHeight options of Some v \<Rightarrow> v | None \<Rightarrow> 100)))),
          block_height =
            (min (hours_end hours) (case uh_dayEnd options of Some v \<Rightarrow> v | None \<Rightarrow> 24)
             - max (hours_start hours) (case uh_dayStart options of Some v \<Rightarrow> v | None \<Rightarrow> 0))
            * (case uh_hourBlockHeight options of Some v \<Rightarrow> v | None \<Rightarrow> 100)\<rparr>])
   \<and> fst (buildUnavailableHoursBlocks [\<lparr>hours_start = 1, hours_end = 5\<rparr>]
          \<lparr>uh_hourBlockHeight = Some 100, uh_dayStart = Some 0, uh_dayEnd = Some 24\<rparr>) =
       [\<lparr>block_top = Some 100, block_height = 400\<rparr>]"
proof (intro conjI impI)
  assume v: "validRange hours"
  then show "fst (buildUnavailableHoursBlocks [hours] options) =
        [\<lparr>block_top =
            (if (case uh_dayEnd options of Some v \<Rightarrow> v | None \<Rightarrow> 24)
                - (case uh_dayStart options of Some v \<Rightarrow> v | None \<Rightarrow> 0) = 0
             then None
             else Some (((max (hours_start hours)
                            (case uh_dayStart options of Some v \<Rightarrow> v | None \<Rightarrow> 0)
                          - (case uh_dayStart options of Some v \<Rightarrow> v | None \<Rightarrow> 0))
                         / ((case uh_dayEnd options of Some v \<Rightarrow> v | None \<Rightarrow> 24)
                            - (case uh_dayStart options of Some v \<Rightarrow> v | None \<Rightarrow> 0)))
                        * (((case uh_dayEnd options of Some v \<Rightarrow> v | None \<Rightarrow> 24)
                            - (case uh_dayStart options of Some v \<Rightarrow> v | None \<Rightarrow> 0))
                           * (case uh_hourBlockHeight options of Some v \<Rightarrow> v | None \<Rightarrow> 100)))),
          block_height =
            (min (hours_end hours) (case uh_dayEnd options of Some v \<Rightarrow> v | None \<Rightarrow> 24)
             - max (hours_start hours) (case uh_dayStart options of Some v \<Rightarrow> v | None \<Rightarrow> 0))
            * (case uh_hourBlockHeight options of Some v \<Rightarrow> v | None \<Rightarrow> 100)\<rparr>]"
    by (rule build_single)
next
  have v: "validRange \<lparr>hours_start = 1, hours_end = 5\<rparr>"
    by (simp add: validRange_def)
  show "fst (buildUnavailableHoursBlocks [\<lparr>hours_start = 1, hours_end = 5\<rparr>]
          \<lparr>uh_hourBlockHeight = Some 100, uh_dayStart = Some 0, uh_dayEnd = Some 24\<rparr>) =
       [\<lparr>block_top = Some 100, block_height = 400\<rparr>]"
    by (simp add: build_single [OF v])
qed

text \<open>
  A morning shown from 8 to 12 at 50 pixels an hour. Of the hours 9 to 17 the end is cut
  at 12: the block starts 50 pixels down and is 150 high. Of the hours 6 to 10 the start
  is cut at 8: the block starts at the top and is 100 high. Under the default options the
  hours 9 to 10 give a block 900 pixels down, 100 high.
\<close>

theorem C8_block_geometry_witness:
  "validRange \<lparr>hours_start = 9, hours_end = 17\<rparr>
   \<and> fst (buildUnavailableHoursBlocks [\<lparr>hours_start = 9, hours_end = 17\<rparr>] morningOptions) =
       [\<lparr>block_top = Some 50, block_height = 150\<rparr>]
   \<and> validRange \<lparr>hours_start = 6, hours_end = 10\<rparr>
   \<and> fst (buildUnavailableHoursBlocks [\<lparr>hours_start = 6, hours_end = 10\<rparr>] morningOptions) =
       [\<lparr>block_top = Some 0, block_height = 100\<rparr>]
   \<and> validRange \<lparr>hours_start = 9, hours_end = 10\<rparr>
   \<and> fst (buildUnavailableHoursBlocks [\<lparr>hours_start = 9, hours_end = 10\<rparr>]
          defaultHoursOptions) =
       [\<lparr>block_top = Some 900, block_height = 100\<rparr>]"
proof -
  have v1: "validRange \<lparr>hours_start = 9, hours_end = 17\<rparr>"
    and v2: "validRange \<lparr>hours_start = 6, hours_end = 10\<rparr>"
    and v3: "validRange \<lparr>hours_start = 9, hours_end = 10\<rparr>"
    by (simp_all add: validRange_def)
  from C8_block_geometry [of "\<lparr>hours_start = 9, hours_end = 17\<rparr>" morningOptions] v1
  have b1: "fst (buildUnavailableHoursBlocks [\<lparr>hours_start = 9, hours_end = 17\<rparr>]
              morningOptions) = [\<lparr>block_top = Some 50, block_height = 150\<rparr>]"
    by (simp add: morningOptions_def)
  from C8_block_geometry [of "\<lparr>hours_start = 6, hours_end = 10\<rparr>" morningOptions] v2
  have b2: "fst (buildUnavailableHoursBlocks [\<lparr>hours_start = 6, hours_end = 10\<rparr>]
              morningOptions) = [\<lparr>block_top = Some 0, block_height = 100\<rparr>]"
    by (simp add: morningOptions_def)
  from C8_block_geometry [of "\<lparr>hours_start = 9, hours_end = 10\<rparr>" defaultHoursOptions] v3
  have b3: "fst (buildUnavailableHoursBlocks [\<lparr>hours_start = 9, hours_end = 10\<rparr>]
              defaultHoursOptions) = [\<lparr>block_top = Some 900, block_height = 100\<rparr>]"
    by (simp add: defaultHoursOptions_def)
  from v1 b1 v2 b2 v3 b3 show ?thesis by (intro conjI)
qed

subsection \<open>Valid ranges outside the visible window\<close>

text \<open>
  Claim C10, as stated, fails where it says that the height is zero or negative: the
  source does not look at the sign of \<open>hourBlockHeight\<close>. With \<open>hourBlockHeight = -1\<close> and a
  day shown from 8, the hours 1 to 5 are valid and end before the window; the clamped end
  5 is below the clamped start 8, and the block has the height \<open>(5 - 8) * (-1) = 3\<close>.
\<close>

theorem C10_counterexample:
  "validRange \<lparr>hours_start = 1, hours_end = 5\<rparr>
   \<and> uh_dayStart flippedOptions = Some 8
   \<and> hours_end \<lparr>hours_start = 1, hours_end = 5\<rparr> \<le> (8 :: real)
   \<and> uh_hourBlockHeight flippedOptions = Some (- 1)
   \<and> buildUnavailableHoursBlocks [\<lparr>hours_start = 1, hours_end = 5\<rparr>] flippedOptions =
       ([\<lparr>block_top = Some 0, block_height = 3\<rparr>], [])
   \<and> \<not> block_height (hd (fst (buildUnavailableHoursBlocks
          [\<lparr>hours_start = 1, hours_end = 5\<rparr>] flippedOptions))) \<le> 0"
  by (simp add: validRange_def flippedOptions_def buildUnavailableHoursBlocks_def
      hoursToBlock_def inRange_def Let_def)

text \<open>
  Claim C10, amended. A range that passes the validation and lies wholly outside the
  window (\<open>end <= dayStart\<close> or \<open>start >= dayEnd\<close>) is not dropped: it yields a block, whose
  height is \<open>(min(end, dayEnd) - max(start, dayStart)) * hourBlockHeight\<close>. The clamped end
  is at most the clamped start, so the height is zero or negative provided
  \<open>hourBlockHeight >= 0\<close>. Here \<open>hourBlockHeight\<close>, \<open>dayStart\<close> and \<open>dayEnd\<close> are the caller's
  values, or 100, 0 and 24 where the caller gives none.
\<close>

theorem C10_outside_window:
  assumes "validRange hours"
    and "hours_end hours \<le> (case uh_dayStart options of Some v \<Rightarrow> v | None \<Rightarrow> 0)
         \<or> hours_start hours \<ge> (case uh_dayEnd options of Some v \<Rightarrow> v | None \<Rightarrow> 24)"
  shows "\<exists>block. fst (buildUnavailableHoursBlocks [hours] options) = [block]
       \<and> block_height block =
           (min (hours_end hours) (case uh_dayEnd options of Some v \<Rightarrow> v | None \<Rightarrow> 24)
            - max (hours_start hours) (case uh_dayStart options of Some v \<Rightarrow> v | None \<Rightarrow> 0))
           * (case uh_hourBlockHeight options of Some v \<Rightarrow> v | None \<Rightarrow> 100)
       \<and> min (hours_end hours) (case uh_dayEnd options of Some v \<Rightarrow> v | None \<Rightarrow> 24)
           \<le> max (hours_start hours) (case uh_dayStart options of Some v \<Rightarrow> v | None \<Rightarrow> 0)
       \<and> (0 \<le> (case uh_hourBlockHeight options of Some v \<Rightarrow> v | None \<Rightarrow> 100)
            \<longrightarrow> block_height block \<le> 0)"
proof -
  let ?ds = "(case uh_dayStart options of Some v \<Rightarrow> v | None \<Rightarrow> 0)"
  let ?de = "(case uh_dayEnd options of Some v \<Rightarrow> v | None \<Rightarrow> 24)"
  let ?h = "(case uh_hourBlockHeight options of Some v \<Rightarrow> v | None \<Rightarrow> 100)"
  let ?d = "min (hours_end hours) ?de - max (hours_start hours) ?ds"
  have lt: "hours_start hours < hours_end hours"
    using assms(1) by (simp add: validRange_def)
  from assms(2) lt have le: "min (hours_end hours) ?de \<le> max (hours_start hours) ?ds"
    by (auto simp: min_def max_def)
  then have neg: "?d \<le> 0" by simp
  have sign: "0 \<le> ?h \<longrightarrow> ?d * ?h \<le> 0"
    using neg by (simp add: mult_nonpos_nonneg)
  show ?thesis
    using le sign
    by (simp add: build_single [OF assms(1)])
qed

text \<open>
  A morning shown from 8 to 12 at 50 pixels an hour: the hours 1 to 5 end before the
  window and give a block of height \<open>(5 - 8) * 50 = -150\<close>; the hours 20 to 22 start after
  it and give \<open>(12 - 20) * 50 = -400\<close>; the hours 5 to 8 touch it and give 0.
\<close>

theorem C10_outside_window_witness:
  "validRange \<lparr>hours_start = 1, hours_end = 5\<rparr>
   \<and> validRange \<lparr>hours_start = 20, hours_end = 22\<rparr>
   \<and> validRange \<lparr>hours_start = 5, hours_end = 8\<rparr>
   \<and> uh_dayStart morningOptions = Some 8 \<and> uh_dayEnd morningOptions = Some 12
   \<and> uh_hourBlockHeight morningOptions = Some 50
   \<and> hours_end \<lparr>hours_start = 1, hours_end = 5\<rparr> \<le> (8 :: real)
   \<and> (12 :: real) \<le> hours_start \<lparr>hours_start = 20, hours_end = 22\<rparr>
   \<and> hours_end \<lparr>hours_start = 5, hours_end = 8\<rparr> \<le> (8 :: real)
   \<and> (\<exists>block. fst (buildUnavailableHoursBlocks [\<lparr>hours_start = 1, hours_end = 5\<rparr>]
                      morningOptions) = [block]
        \<and> block_height block = - 150 \<and> block_height block \<le> 0)
   \<and> (\<exists>block. fst (buildUnavailableHoursBlocks [\<lparr>hours_start = 20, hours_end = 22\<rparr>]
                      morningOptions) = [block]
        \<and> block_height block = - 400 \<and> block_height block \<le> 0)
   \<and> (\<exists>block. fst (buildUnavailableHoursBlocks [\<lparr>hours_start = 5, hours_end = 8\<rparr>]
                      morningOptions) = [block]
        \<and> block_height block = 0 \<and> block_height block \<le> 0)"
proof -
  have v1: "validRange \<lparr>hours_start = 1, hours_end = 5\<rparr>"
    and v2: "validRange \<lparr>hours_start = 20, hours_end = 22\<rparr>"
    and v3: "validRange \<lparr>hours_start = 5, hours_end = 8\<rparr>"
    by (simp_all add: validRange_def)
  have o: "uh_dayStart morningOptions = Some 8" "uh_dayEnd morningOptions = Some 12"
    "uh_hourBlockHeight morningOptions = Some 50"
    by (simp_all add: morningOptions_def)
  have w1: "hours_end \<lparr>hours_start = 1, hours_end = 5\<rparr> \<le> (8 :: real)"
    and w2: "(12 :: real) \<le> hours_start \<lparr>hours_start = 20, hours_end = 22\<rparr>"
    and w3: "hours_end \<lparr>hours_start = 5, hours_end = 8\<rparr> \<le> (8 :: real)"
    by simp_all
  have b1: "\<exists>block. fst (buildUnavailableHoursBlocks [\<lparr>hours_start = 1, hours_end = 5\<rparr>]
                      morningOptions) = [block]
        \<and> block_height block = - 150 \<and> block_height block \<le> 0"
    using C10_outside_window [OF v1, of morningOptions] by (simp add: o)
  have b2: "\<exists>block. fst (buildUnavailableHoursBlocks [\<lparr>hours_start = 20, hours_end = 22\<rparr>]
                      morningOptions) = [block]
        \<and> block_height block = - 400 \<and> block_height block \<le> 0"
    using C10_outside_window [OF v2, of morningOptions] by (simp add: o)
  have b3: "\<exists>block. fst (buildUnavailableHoursBlocks [\<lparr>hours_start = 5, hours_end = 8\<rparr>]
                      morningOptions) = [block]
        \<and> block_height block = 0 \<and> block_height block \<le> 0"
    using C10_outside_window [OF v3, of morningOptions] by (simp add: o)
  from v1 v2 v3 o w1 w2 w3 b1 b2 b3 show ?thesis by (intro conjI)
qed

end
